theory Spec2Isabelle
  imports Complex_Main "HOL-Library.Sublist" "HOL-Library.AList"
begin

section \<open>Strings\<close>

text \<open>
  A JavaScript string is a sequence of UTF-16 code units. The model reads a \<^typ>\<open>char\<close> as a
  code unit below 256 (the Latin-1 range, which holds every literal of the source and the
  Portuguese names it is applied to). On that range \<open>toLowerCase\<close> adds 32 to the code units
  of \<open>A..Z\<close>, \<open>U+00C0..U+00D6\<close> and \<open>U+00D8..U+00DE\<close>, and \<open>trim\<close> strips the code
  units 9..13, 32 and 160 from both ends.
\<close>

definition lowerUnit :: "char \<Rightarrow> char" where
  "lowerUnit c =
     (let n = (of_char c :: nat)
      in if (65 \<le> n \<and> n \<le> 90) \<or> (192 \<le> n \<and> n \<le> 214) \<or> (216 \<le> n \<and> n \<le> 222)
         then char_of (n + 32) else c)"

definition toLowerCase :: "string \<Rightarrow> string" where
  "toLowerCase s = map lowerUnit s"

definition isWhiteSpace :: "char \<Rightarrow> bool" where
  "isWhiteSpace c = ((of_char c :: nat) \<in> {9, 10, 11, 12, 13, 32, 160})"

definition trim :: "string \<Rightarrow> string" where
  "trim s = rev (dropWhile isWhiteSpace (rev (dropWhile isWhiteSpace s)))"

text \<open>\<open>s.includes(t)\<close>: \<open>t\<close> occurs in \<open>s\<close> as a contiguous run.\<close>

definition str_includes :: "string \<Rightarrow> string \<Rightarrow> bool" where
  "str_includes s t = sublist t s"

text \<open>\<open>s.charAt(i)\<close> is the one-unit string at \<open>i\<close>, and the empty string out of range.\<close>

definition charAt :: "string \<Rightarrow> nat \<Rightarrow> string" where
  "charAt s i = (if i < length s then [s ! i] else [])"

text \<open>
  An optional string field is absent (\<open>undefined\<close>) or present. JavaScript's truthiness test
  \<open>if (x)\<close> on such a field fails for the absent value and for the empty string.
\<close>

fun truthy :: "string option \<Rightarrow> bool" where
  "truthy None = False"
| "truthy (Some s) = (s \<noteq> [])"

text \<open>
  \<open>a[i] = v\<close> on a JavaScript array: an index inside the array overwrites and the index
  \<open>a.length\<close> appends. A larger index would leave holes; the model leaves that case
  unspecified, and the loops below never reach it (every write is at an index up to the
  length, which the proofs of their invariants establish).
\<close>

definition arraySet :: "'a list \<Rightarrow> nat \<Rightarrow> 'a \<Rightarrow> 'a list" where
  "arraySet xs i v =
     (if i < length xs then xs[i := v]
      else if i = length xs then xs @ [v]
      else undefined)"

section \<open>StringSimilarity\<close>

subsection \<open>\<open>_levenshteinDistance\<close>\<close>

text \<open>The first loop: \<open>matrix[i] = [i]\<close> for \<open>i = 0 .. str2.length\<close>.\<close>

definition initRows :: "string \<Rightarrow> nat list list" where
  "initRows str2 = fold (\<lambda>i matrix. arraySet matrix i [i]) [0..<Suc (length str2)] []"

text \<open>The second loop: \<open>matrix[0][j] = j\<close> for \<open>j = 0 .. str1.length\<close>.\<close>

definition initFirstRow :: "string \<Rightarrow> nat list list \<Rightarrow> nat list list" where
  "initFirstRow str1 matrix0 =
     fold (\<lambda>j matrix. matrix[0 := arraySet (matrix ! 0) j j]) [0..<Suc (length str1)] matrix0"

text \<open>The body of the inner loop: the value stored in \<open>matrix[i][j]\<close>.\<close>

definition cell :: "string \<Rightarrow> string \<Rightarrow> nat list list \<Rightarrow> nat \<Rightarrow> nat \<Rightarrow> nat" where
  "cell str1 str2 matrix i j =
     (if charAt str2 (i - 1) = charAt str1 (j - 1) then matrix ! (i - 1) ! (j - 1)
      else min (matrix ! (i - 1) ! (j - 1) + 1)
             (min (matrix ! i ! (j - 1) + 1) (matrix ! (i - 1) ! j + 1)))"

definition fillRow :: "string \<Rightarrow> string \<Rightarrow> nat \<Rightarrow> nat list list \<Rightarrow> nat list list" where
  "fillRow str1 str2 i matrix0 =
     fold (\<lambda>j matrix. matrix[i := arraySet (matrix ! i) j (cell str1 str2 matrix i j)])
       [1..<Suc (length str1)] matrix0"

definition fillMatrix :: "string \<Rightarrow> string \<Rightarrow> nat list list \<Rightarrow> nat list list" where
  "fillMatrix str1 str2 matrix0 =
     fold (\<lambda>i matrix. fillRow str1 str2 i matrix) [1..<Suc (length str2)] matrix0"

definition levenshteinDistance :: "string \<Rightarrow> string \<Rightarrow> nat" where
  "levenshteinDistance str1 str2 =
     fillMatrix str1 str2 (initFirstRow str1 (initRows str2)) ! length str2 ! length str1"

subsection \<open>\<open>_calculateSimilarity\<close>\<close>

text \<open>
  The source divides two integers below \<open>2^53\<close> in double precision and compares the
  quotient with the literal \<open>0.8\<close>. Division is correctly rounded and rounding is monotone,
  0 and 1 are doubles, and a quotient \<open>m / L\<close> other than \<open>4/5\<close> differs from it by at
  least \<open>1 / (5 L)\<close>, far more than half a unit in the last place for every string length a
  JavaScript engine allows; so the comparisons of the source agree with the comparisons of
  the exact quotients, which the model computes in \<^typ>\<open>rat\<close>.
\<close>

definition calculateSimilarity :: "string \<Rightarrow> string \<Rightarrow> rat" where
  "calculateSimilarity str1 str2 =
     (let longer = (if length str1 > length str2 then str1 else str2);
          shorter = (if length str1 > length str2 then str2 else str1)
      in if length longer = 0 then 1
         else (of_nat (length longer) - of_nat (levenshteinDistance longer shorter))
                / of_nat (length longer))"

section \<open>NameMatcher\<close>

text \<open>The \<open>for (const registered of registeredList)\<close> loop of \<open>_findClosestMatch\<close>.\<close>

fun closestLoop :: "string \<Rightarrow> string list \<Rightarrow> string option" where
  "closestLoop nameLower [] = None"
| "closestLoop nameLower (registered # rest) =
     (if str_includes registered nameLower \<or> str_includes nameLower registered
      then Some registered
      else if calculateSimilarity nameLower registered > 4 / 5 then Some registered
      else closestLoop nameLower rest)"

definition findClosestMatch :: "string \<Rightarrow> string list \<Rightarrow> string option" where
  "findClosestMatch name registeredList =
     (let nameLower = trim (toLowerCase name);
          exactMatch = find (\<lambda>registered. registered = nameLower) registeredList
      in if truthy exactMatch then exactMatch
         else closestLoop nameLower registeredList)"

section \<open>Reference edit distance\<close>

text \<open>
  The textbook recursion: the cheapest of substituting (or keeping) the first characters,
  deleting the first character of the one string, or inserting the first character of the
  other, each edit at cost 1.
\<close>

fun editDistance :: "'a list \<Rightarrow> 'a list \<Rightarrow> nat" where
  "editDistance [] ys = length ys"
| "editDistance xs [] = length xs"
| "editDistance (x # xs) (y # ys) =
     min (editDistance xs ys + (if x = y then 0 else 1))
       (min (editDistance xs (y # ys) + 1) (editDistance (x # xs) ys + 1))"

text \<open>
  \<open>edits xs ys n\<close>: some sequence of single-character deletions, insertions and
  substitutions, \<open>n\<close> of them in all, turns \<open>xs\<close> into \<open>ys\<close>.
\<close>

inductive edits :: "'a list \<Rightarrow> 'a list \<Rightarrow> nat \<Rightarrow> bool" where
  e_nil: "edits [] [] 0"
| e_del: "edits xs ys n \<Longrightarrow> edits (x # xs) ys (Suc n)"
| e_ins: "edits xs ys n \<Longrightarrow> edits xs (y # ys) (Suc n)"
| e_keep: "edits xs ys n \<Longrightarrow> edits (x # xs) (x # ys) n"
| e_sub: "edits xs ys n \<Longrightarrow> edits (x # xs) (y # ys) (Suc n)"

text \<open>
  The distance between the prefixes of length \<open>i\<close> of \<open>str2\<close> and \<open>j\<close> of \<open>str1\<close>, which
  is what \<open>matrix[i][j]\<close> holds, and the loop invariant of \<open>_levenshteinDistance\<close>: the
  rows below \<open>k\<close> are complete, the rows from \<open>k\<close> on still hold their first column only.
\<close>

definition prefixDist :: "string \<Rightarrow> string \<Rightarrow> nat \<Rightarrow> nat \<Rightarrow> nat" where
  "prefixDist str1 str2 i j = editDistance (take i str2) (take j str1)"

definition rowsFilled :: "string \<Rightarrow> string \<Rightarrow> nat \<Rightarrow> nat list list \<Rightarrow> bool" where
  "rowsFilled str1 str2 k matrix \<longleftrightarrow>
     length matrix = Suc (length str2) \<and>
     (\<forall>i<k. matrix ! i = map (prefixDist str1 str2 i) [0..<Suc (length str1)]) \<and>
     (\<forall>i. k \<le> i \<and> i \<le> length str2 \<longrightarrow> matrix ! i = [i])"

section \<open>Data model\<close>

text \<open>
  The objects the engine reads and mutates. Field names are those of the source; a name that
  several kinds of object share carries a suffix (\<open>id_slot\<close>, \<open>id_prof\<close>, \<open>id_apt\<close>, ...).
  Optional fields are options. The two flags of a slot are only ever assigned \<open>true\<close>; an
  unset flag and a false one are both \<open>False\<close>.
\<close>

record Slot =
  id_slot :: string
  roomName :: string
  dayOfWeek :: string
  time_slot :: string
  appointmentDate :: string
  isOccupied :: bool
  patientName :: "string option"
  professionalName :: "string option"
  professionalId :: "string option"
  linkedAppointmentId :: "string option"
  hasScheduleConflict :: bool
  hasValidationError :: bool

record Professional =
  id_prof :: string
  name_prof :: string
  specialty :: string
  registration :: string
  inactive :: bool

record Appointment =
  id_apt :: string
  client :: string
  professionalId_apt :: string
  date :: string
  time_apt :: string
  type_apt :: string

record RoomImportData =
  schedule :: "Slot list"
  newProfessionals :: "Professional list"
  updatedAppointments :: "Appointment list"

text \<open>The \<open>type\<close> tag of an auto-correction or validation error: \<open>'Paciente'\<close>, \<open>'Profissional'\<close>.\<close>

datatype EntityType = Paciente | Profissional

text \<open>
  The \<open>type\<close> tag of a suggested change, one constructor for each literal of the source
  (written here without their accents): \<open>'Correcao de Nome de Paciente'\<close>,
  \<open>'Erro de Validacao'\<close>, \<open>'Correcao de Nome de Profissional'\<close>, \<open>'Novo Profissional'\<close>,
  \<open>'Conflito de Horario'\<close>, \<open>'Conflito com Agendamento'\<close>, \<open>'Sala Duplicada'\<close>,
  \<open>'Profissional Inativo'\<close>.
\<close>

datatype ChangeType =
    CorrecaoDeNomeDePaciente
  | ErroDeValidacao
  | CorrecaoDeNomeDeProfissional
  | NovoProfissional
  | ConflitoDeHorario
  | ConflitoComAgendamento
  | SalaDuplicada
  | ProfissionalInativoChange

record AutoCorrection =
  type_ac :: EntityType
  original :: string
  corrected :: string
  location_ac :: string
  slotId_ac :: string

record ValidationError =
  type_ve :: EntityType
  name_ve :: string
  location_ve :: string
  action :: "string option"
  slotId_ve :: string

record ChangeRecord =
  type_cr :: ChangeType
  description :: string
  location_cr :: string
  slotId_cr :: string

text \<open>An entry of \<open>conflictingAppointments\<close>: \<open>{id, client, type}\<close>.\<close>

record AppointmentRef =
  id_ref :: string
  client_ref :: string
  type_ref :: string

text \<open>
  A conflict, by its \<open>type\<close> literal (accents dropped), with its fields in the order of the
  source:
  \<^item> \<open>'Profissional em Multiplas Salas'\<close>: professionalName, rooms, dayTime, slots;
  \<^item> \<open>'Conflito com Agendamento Existente'\<close>: professionalName, patientName, room, dayTime,
    conflictingAppointments, slotId;
  \<^item> \<open>'Sala com Multiplos Agendamentos'\<close>: roomName, dayTime, patients, professionals, slots;
  \<^item> \<open>'Profissional Inativo'\<close>: professionalName, patientName, room, dayTime, slotId.
\<close>

datatype Conflict =
    ProfissionalEmMultiplasSalas "string option" string string "string list"
  | ConflitoComAgendamentoExistente "string option" "string option" string string
      "AppointmentRef list" string
  | SalaComMultiplosAgendamentos string string string string "string list"
  | ProfissionalInativo string "string option" string string string

text \<open>The fields of the engine object (\<open>this\<close>).\<close>

record InternalAI =
  originalData :: "RoomImportData option"
  suggestedChanges :: "ChangeRecord list"
  conflicts :: "Conflict list"
  validationErrors :: "ValidationError list"
  autoCorrections :: "AutoCorrection list"

datatype error = TypeError

section \<open>Text helpers\<close>

text \<open>An optional string inside a template literal: the absent value prints as \<open>undefined\<close>.\<close>

fun str :: "string option \<Rightarrow> string" where
  "str None = ''undefined''"
| "str (Some s) = s"

text \<open>A string between double quotes (code unit \<open>0x22\<close>).\<close>

definition quoted :: "string \<Rightarrow> string" where
  "quoted s = [CHR 0x22] @ s @ [CHR 0x22]"

text \<open>\<open>xs.join(sep)\<close>.\<close>

fun join :: "string \<Rightarrow> string list \<Rightarrow> string" where
  "join sep [] = []"
| "join sep [x] = x"
| "join sep (x # y # ys) = x @ sep @ join sep (y # ys)"

text \<open>The template \<open>`${slot.roomName} - ${slot.dayOfWeek} ${slot.time}`\<close>.\<close>

definition location :: "Slot \<Rightarrow> string" where
  "location slot = roomName slot @ '' - '' @ dayOfWeek slot @ '' '' @ time_slot slot"

text \<open>The template \<open>`${slot.dayOfWeek} ${slot.time}`\<close>.\<close>

definition dayTime :: "Slot \<Rightarrow> string" where
  "dayTime slot = dayOfWeek slot @ '' '' @ time_slot slot"

text \<open>\<open>[...new Set(xs)]\<close>: the distinct elements, in the order of their first occurrence.\<close>

definition uniqueInOrder :: "'a list \<Rightarrow> 'a list" where
  "uniqueInOrder xs = fold (\<lambda>x seen. if x \<in> set seen then seen else seen @ [x]) xs []"

section \<open>NameReconciler: \<open>_validateNames\<close>\<close>

text \<open>The patient half of the callback (source lines 82--131).\<close>

definition validatePatient ::
  "string list \<Rightarrow> Appointment list \<Rightarrow> Slot \<Rightarrow> InternalAI \<Rightarrow> Slot \<times> InternalAI" where
  "validatePatient registeredPatients appointments slot this =
     (case patientName slot of
        None \<Rightarrow> (slot, this)
      | Some pname \<Rightarrow>
          if pname = [] then (slot, this)
          else
            let patientLower = trim (toLowerCase pname)
            in if patientLower \<in> set registeredPatients then (slot, this)
               else if truthy (findClosestMatch patientLower registeredPatients)
               then
                 (case find (\<lambda>apt. Some (trim (toLowerCase (client apt)))
                                       = findClosestMatch patientLower registeredPatients)
                          appointments of
                    None \<Rightarrow> (slot, this)
                  | Some originalCase \<Rightarrow>
                      (slot\<lparr>patientName := Some (client originalCase)\<rparr>,
                       this\<lparr>autoCorrections := autoCorrections this @
                                [\<lparr>type_ac = Paciente, original = pname,
                                  corrected = client originalCase,
                                  location_ac = location slot,
                                  slotId_ac = id_slot slot\<rparr>],
                             suggestedChanges := suggestedChanges this @
                                [\<lparr>type_cr = CorrecaoDeNomeDePaciente,
                                  description = ''Corrigir '' @ quoted pname
                                    @ '' para '' @ quoted (client originalCase),
                                  location_cr = location slot,
                                  slotId_cr = id_slot slot\<rparr>]\<rparr>))
               else
                 (slot,
                  this\<lparr>validationErrors := validationErrors this @
                           [\<lparr>type_ve = Paciente, name_ve = pname,
                             location_ve = location slot, action = None,
                             slotId_ve = id_slot slot\<rparr>],
                        suggestedChanges := suggestedChanges this @
                           [\<lparr>type_cr = ErroDeValidacao,
                             description = ''Paciente '' @ quoted pname
                               @ '' n'' @ [CHR 0xE3] @ ''o encontrado no cadastro'',
                             location_cr = location slot,
                             slotId_cr = id_slot slot\<rparr>]\<rparr>))"

text \<open>
  The synthetic professional of source lines 174--180. \<open>stamp\<close> is the text of
  \<open>`${Date.now()}_${Math.random()}`\<close> at the moment of creation.
\<close>

definition newProfessional :: "string \<Rightarrow> string \<Rightarrow> Professional" where
  "newProfessional stamp pname =
     \<lparr>id_prof = ''ai_new_prof_'' @ stamp, name_prof = pname,
      specialty = ''Importado - IA'', registration = [], inactive = False\<rparr>"

text \<open>
  The professional half of the callback (source lines 133--202). It reads and extends
  \<open>roomImportData.newProfessionals\<close>, passed and returned as the third component.
\<close>

definition validateProfessional ::
  "string \<Rightarrow> string list \<Rightarrow> Professional list \<Rightarrow> Slot \<Rightarrow> InternalAI \<Rightarrow> Professional list
     \<Rightarrow> Slot \<times> InternalAI \<times> Professional list" where
  "validateProfessional stamp registeredProfessionals professionals slot this newProfs =
     (case professionalName slot of
        None \<Rightarrow> (slot, this, newProfs)
      | Some pname \<Rightarrow>
          if pname = [] then (slot, this, newProfs)
          else
            let profLower = trim (toLowerCase pname)
            in if profLower \<in> set registeredProfessionals then (slot, this, newProfs)
               else if list_ex (\<lambda>p. trim (toLowerCase (name_prof p)) = profLower) newProfs
               then (slot, this, newProfs)
               else if truthy (findClosestMatch profLower registeredProfessionals)
               then
                 (case find (\<lambda>p. Some (trim (toLowerCase (name_prof p)))
                                     = findClosestMatch profLower registeredProfessionals)
                          professionals of
                    None \<Rightarrow> (slot, this, newProfs)
                  | Some originalProf \<Rightarrow>
                      (slot\<lparr>professionalName := Some (name_prof originalProf),
                            professionalId := Some (id_prof originalProf)\<rparr>,
                       this\<lparr>autoCorrections := autoCorrections this @
                                [\<lparr>type_ac = Profissional, original = pname,
                                  corrected = name_prof originalProf,
                                  location_ac = location slot,
                                  slotId_ac = id_slot slot\<rparr>],
                             suggestedChanges := suggestedChanges this @
                                [\<lparr>type_cr = CorrecaoDeNomeDeProfissional,
                                  description = ''Corrigir '' @ quoted pname
                                    @ '' para '' @ quoted (name_prof originalProf),
                                  location_cr = location slot,
                                  slotId_cr = id_slot slot\<rparr>]\<rparr>,
                       newProfs))
               else
                 (slot\<lparr>professionalId := Some (id_prof (newProfessional stamp pname))\<rparr>,
                  this\<lparr>validationErrors := validationErrors this @
                           [\<lparr>type_ve = Profissional, name_ve = pname,
                             location_ve = location slot,
                             action = Some (''Novo profissional ser'' @ [CHR 0xE1] @ '' criado''),
                             slotId_ve = id_slot slot\<rparr>],
                        suggestedChanges := suggestedChanges this @
                           [\<lparr>type_cr = NovoProfissional,
                             description = ''Criar novo profissional '' @ quoted pname,
                             location_cr = location slot,
                             slotId_cr = id_slot slot\<rparr>]\<rparr>,
                  newProfs @ [newProfessional stamp pname]))"

text \<open>
  The \<open>forEach\<close> over the schedule: the callback returns at once on a slot that is not
  occupied, and otherwise runs the patient half and then the professional half. \<open>stamp i\<close>
  is the text \<open>Date.now()\<close> and \<open>Math.random()\<close> yield while the slot at index \<open>i\<close> is
  processed.
\<close>

fun validateSlots ::
  "(nat \<Rightarrow> string) \<Rightarrow> string list \<Rightarrow> string list \<Rightarrow> Professional list \<Rightarrow> Appointment list
     \<Rightarrow> nat \<Rightarrow> Slot list \<Rightarrow> InternalAI \<Rightarrow> Professional list
     \<Rightarrow> Slot list \<times> InternalAI \<times> Professional list" where
  "validateSlots stamp registeredPatients registeredProfessionals professionals appointments
       i [] this newProfs = ([], this, newProfs)"
| "validateSlots stamp registeredPatients registeredProfessionals professionals appointments
       i (slot # rest) this newProfs =
     (if \<not> isOccupied slot then
        (case validateSlots stamp registeredPatients registeredProfessionals professionals
                appointments (Suc i) rest this newProfs of
           (rest', this', newProfs') \<Rightarrow> (slot # rest', this', newProfs'))
      else
        (case validatePatient registeredPatients appointments slot this of
           (slot1, this1) \<Rightarrow>
             (case validateProfessional (stamp i) registeredProfessionals professionals
                     slot1 this1 newProfs of
                (slot2, this2, newProfs2) \<Rightarrow>
                  (case validateSlots stamp registeredPatients registeredProfessionals
                          professionals appointments (Suc i) rest this2 newProfs2 of
                     (rest', this', newProfs') \<Rightarrow> (slot2 # rest', this', newProfs')))))"

definition validateNames ::
  "(nat \<Rightarrow> string) \<Rightarrow> InternalAI \<Rightarrow> RoomImportData \<Rightarrow> Professional list \<Rightarrow> Appointment list
     \<Rightarrow> InternalAI \<times> RoomImportData" where
  "validateNames stamp this roomImportData professionals appointments =
     (let registeredPatients =
            uniqueInOrder (map (\<lambda>apt. trim (toLowerCase (client apt))) appointments);
          registeredProfessionals =
            map (\<lambda>prof. trim (toLowerCase (name_prof prof))) professionals
      in case validateSlots stamp registeredPatients registeredProfessionals professionals
                appointments 0 (schedule roomImportData) this
                (newProfessionals roomImportData) of
           (schedule', this', newProfs') \<Rightarrow>
             (this', roomImportData\<lparr>schedule := schedule', newProfessionals := newProfs'\<rparr>))"

section \<open>ConflictDetector\<close>

subsection \<open>Grouping slots under string keys\<close>

text \<open>
  \<open>slotsByProfDayTime\<close> and \<open>slotsByRoomDayTime\<close> are object literals used as dictionaries
  from a key string to an array of slots. The model keeps the entries in insertion order,
  which is the order \<open>for (const key in ...)\<close> visits them (the keys hold two underscores, so
  none is an array index), and keeps a slot as its index in the schedule, since the arrays
  hold references to the slot objects of the schedule.

  An object literal inherits the properties of \<open>Object.prototype\<close>. For a key that is one
  of their names and not yet an own property, \<open>!obj[key]\<close> is false, and \<open>obj[key].push\<close> is
  not a function: the call throws a \<open>TypeError\<close>.
\<close>

type_synonym Groups = "(string \<times> nat list) list"

definition inheritedProperties :: "string list" where
  "inheritedProperties =
     [''constructor'', ''__defineGetter__'', ''__defineSetter__'', ''hasOwnProperty'',
      ''__lookupGetter__'', ''__lookupSetter__'', ''isPrototypeOf'', ''propertyIsEnumerable'',
      ''toString'', ''valueOf'', ''__proto__'', ''toLocaleString'']"

text \<open>\<open>if (!obj[key]) obj[key] = []; obj[key].push(slot)\<close> for the slot at index \<open>i\<close>.\<close>

definition groupPush :: "Groups \<Rightarrow> string \<Rightarrow> nat \<Rightarrow> error + Groups" where
  "groupPush groups key i =
     (case map_of groups key of
        Some members \<Rightarrow> Inr (AList.update key (members @ [i]) groups)
      | None \<Rightarrow>
          if key \<in> set inheritedProperties then Inl TypeError
          else Inr (groups @ [(key, [i])]))"

text \<open>
  The grouping \<open>forEach\<close> of both passes: \<open>skip\<close> is the early \<open>return\<close> of the callback and
  \<open>key\<close> its template literal.
\<close>

fun groupSlots ::
  "(Slot \<Rightarrow> bool) \<Rightarrow> (Slot \<Rightarrow> string) \<Rightarrow> nat \<Rightarrow> Slot list \<Rightarrow> Groups \<Rightarrow> error + Groups" where
  "groupSlots skip key i [] groups = Inr groups"
| "groupSlots skip key i (slot # rest) groups =
     (if skip slot then groupSlots skip key (Suc i) rest groups
      else
        (case groupPush groups (key slot) i of
           Inl e \<Rightarrow> Inl e
         | Inr groups' \<Rightarrow> groupSlots skip key (Suc i) rest groups'))"

text \<open>
  \<open>slots.forEach(slot => { slot.hasScheduleConflict = true; this.suggestedChanges.push(...) })\<close>
  over the members of a group; \<open>change\<close> builds the pushed record from the slot.
\<close>

fun markSlots ::
  "(Slot \<Rightarrow> ChangeRecord) \<Rightarrow> nat list \<Rightarrow> Slot list \<Rightarrow> InternalAI \<Rightarrow> Slot list \<times> InternalAI" where
  "markSlots change [] sched this = (sched, this)"
| "markSlots change (i # rest) sched this =
     markSlots change rest
       (sched[i := (sched ! i)\<lparr>hasScheduleConflict := True\<rparr>])
       (this\<lparr>suggestedChanges := suggestedChanges this @ [change (sched ! i)]\<rparr>)"

subsection \<open>\<open>_detectScheduleConflicts\<close>\<close>

text \<open>The key \<open>`${slot.professionalId}_${slot.appointmentDate}_${slot.time}`\<close>.\<close>

definition profDayTimeKey :: "Slot \<Rightarrow> string" where
  "profDayTimeKey slot =
     str (professionalId slot) @ ''_'' @ appointmentDate slot @ ''_'' @ time_slot slot"

definition slotsByProfDayTime :: "Slot list \<Rightarrow> error + Groups" where
  "slotsByProfDayTime sched =
     groupSlots (\<lambda>slot. \<not> isOccupied slot \<or> \<not> truthy (professionalId slot))
       profDayTimeKey 0 sched []"

text \<open>
  The conflict and the suggested change pushed for a group \<open>slots\<close> with more than one member
  (source lines 235--256).
\<close>

definition doubleBookingConflict :: "Slot list \<Rightarrow> nat list \<Rightarrow> Conflict" where
  "doubleBookingConflict sched slots =
     (let profName = professionalName (sched ! (slots ! 0));
          conflictingRooms = join '', '' (map (\<lambda>i. roomName (sched ! i)) slots);
          dayTime0 = dayTime (sched ! (slots ! 0))
      in ProfissionalEmMultiplasSalas profName conflictingRooms dayTime0
           (map (\<lambda>i. id_slot (sched ! i)) slots))"

definition doubleBookingChange :: "Slot list \<Rightarrow> nat list \<Rightarrow> Slot \<Rightarrow> ChangeRecord" where
  "doubleBookingChange sched slots slot =
     (let profName = professionalName (sched ! (slots ! 0));
          conflictingRooms = join '', '' (map (\<lambda>i. roomName (sched ! i)) slots);
          dayTime0 = dayTime (sched ! (slots ! 0))
      in \<lparr>type_cr = ConflitoDeHorario,
          description = ''Profissional '' @ quoted (str profName)
            @ '' agendado em m'' @ [CHR 0xFA] @ ''ltiplas salas: '' @ conflictingRooms,
          location_cr = dayTime0,
          slotId_cr = id_slot slot\<rparr>)"

text \<open>
  The \<open>for (const key in ...)\<close> loop of both passes (source lines 230--259 and 327--358):
  for every group with more than one member, the conflict is pushed and every member is
  marked. \<open>conflict\<close> and \<open>change\<close> build the two object literals of the pass from the
  schedule and the group.
\<close>

fun reportGroups ::
  "(Slot list \<Rightarrow> nat list \<Rightarrow> Conflict) \<Rightarrow> (Slot list \<Rightarrow> nat list \<Rightarrow> Slot \<Rightarrow> ChangeRecord)
     \<Rightarrow> Groups \<Rightarrow> Slot list \<Rightarrow> InternalAI \<Rightarrow> Slot list \<times> InternalAI" where
  "reportGroups conflict change [] sched this = (sched, this)"
| "reportGroups conflict change ((key, slots) # rest) sched this =
     (if length slots > 1 then
        (case markSlots (change sched slots) slots sched
                (this\<lparr>conflicts := conflicts this @ [conflict sched slots]\<rparr>) of
           (sched', this') \<Rightarrow> reportGroups conflict change rest sched' this')
      else reportGroups conflict change rest sched this)"

text \<open>The \<open>filter\<close> of source lines 266--271.\<close>

definition conflictingAppointments :: "Appointment list \<Rightarrow> Slot \<Rightarrow> Appointment list" where
  "conflictingAppointments appointments slot =
     filter (\<lambda>apt. Some (professionalId_apt apt) = professionalId slot
                  \<and> date apt = appointmentDate slot
                  \<and> time_apt apt = time_slot slot
                  \<and> (\<not> truthy (linkedAppointmentId slot)
                       \<or> Some (id_apt apt) \<noteq> linkedAppointmentId slot))
       appointments"

text \<open>The callback of the second \<open>forEach\<close> (source lines 262--302).\<close>

definition checkExistingAppointment ::
  "Appointment list \<Rightarrow> Slot \<Rightarrow> InternalAI \<Rightarrow> Slot \<times> InternalAI" where
  "checkExistingAppointment appointments slot this =
     (if \<not> isOccupied slot \<or> \<not> truthy (professionalId slot) then (slot, this)
      else if length (conflictingAppointments appointments slot) > 0 then
        let profName = professionalName slot;
            conflictingClients =
              join '', '' (map client (conflictingAppointments appointments slot))
        in (slot\<lparr>hasScheduleConflict := True\<rparr>,
            this\<lparr>conflicts := conflicts this @
                     [ConflitoComAgendamentoExistente profName (patientName slot)
                        (roomName slot) (dayTime slot)
                        (map (\<lambda>apt. \<lparr>id_ref = id_apt apt, client_ref = client apt,
                                     type_ref = type_apt apt\<rparr>)
                           (conflictingAppointments appointments slot))
                        (id_slot slot)],
                  suggestedChanges := suggestedChanges this @
                     [\<lparr>type_cr = ConflitoComAgendamento,
                       description = ''Profissional '' @ quoted (str profName)
                         @ '' j'' @ [CHR 0xE1] @ '' tem agendamento com ''
                         @ quoted conflictingClients,
                       location_cr = location slot,
                       slotId_cr = id_slot slot\<rparr>]\<rparr>)
      else (slot, this))"

text \<open>
  A \<open>forEach\<close> over the schedule whose callback mutates the slot it is given and the engine.
\<close>

fun forEachSlot ::
  "(Slot \<Rightarrow> InternalAI \<Rightarrow> Slot \<times> InternalAI) \<Rightarrow> Slot list \<Rightarrow> InternalAI
     \<Rightarrow> Slot list \<times> InternalAI" where
  "forEachSlot callback [] this = ([], this)"
| "forEachSlot callback (slot # rest) this =
     (case callback slot this of
        (slot', this1) \<Rightarrow>
          (case forEachSlot callback rest this1 of
             (rest', this') \<Rightarrow> (slot' # rest', this')))"

definition detectScheduleConflicts ::
  "InternalAI \<Rightarrow> RoomImportData \<Rightarrow> Professional list \<Rightarrow> Appointment list
     \<Rightarrow> error + (InternalAI \<times> RoomImportData)" where
  "detectScheduleConflicts this roomImportData professionals appointments =
     (case slotsByProfDayTime (schedule roomImportData) of
        Inl e \<Rightarrow> Inl e
      | Inr groups \<Rightarrow>
          (case reportGroups doubleBookingConflict doubleBookingChange groups
                  (schedule roomImportData) this of
             (sched1, this1) \<Rightarrow>
               (case forEachSlot (checkExistingAppointment appointments) sched1 this1 of
                  (sched2, this2) \<Rightarrow> Inr (this2, roomImportData\<lparr>schedule := sched2\<rparr>))))"

subsection \<open>\<open>_detectDuplicateRoomsOrTimes\<close>\<close>

text \<open>The key \<open>`${slot.roomName}_${slot.dayOfWeek}_${slot.time}`\<close>.\<close>

definition roomDayTimeKey :: "Slot \<Rightarrow> string" where
  "roomDayTimeKey slot = roomName slot @ ''_'' @ dayOfWeek slot @ ''_'' @ time_slot slot"

definition slotsByRoomDayTime :: "Slot list \<Rightarrow> error + Groups" where
  "slotsByRoomDayTime sched = groupSlots (\<lambda>slot. \<not> isOccupied slot) roomDayTimeKey 0 sched []"

text \<open>The conflict and the suggested change pushed for a group (source lines 332--355).\<close>

definition duplicateRoomConflict :: "Slot list \<Rightarrow> nat list \<Rightarrow> Conflict" where
  "duplicateRoomConflict sched slots =
     (let roomName0 = roomName (sched ! (slots ! 0));
          dayTime0 = dayTime (sched ! (slots ! 0));
          patients = join '', ''
            (map str (filter truthy (map (\<lambda>i. patientName (sched ! i)) slots)));
          professionals = join '', ''
            (map str (filter truthy (map (\<lambda>i. professionalName (sched ! i)) slots)))
      in SalaComMultiplosAgendamentos roomName0 dayTime0 patients professionals
           (map (\<lambda>i. id_slot (sched ! i)) slots))"

definition duplicateRoomChange :: "Slot list \<Rightarrow> nat list \<Rightarrow> Slot \<Rightarrow> ChangeRecord" where
  "duplicateRoomChange sched slots slot =
     (let roomName0 = roomName (sched ! (slots ! 0));
          dayTime0 = dayTime (sched ! (slots ! 0))
      in \<lparr>type_cr = SalaDuplicada,
          description = ''Sala '' @ quoted roomName0
            @ '' com m'' @ [CHR 0xFA] @ ''ltiplos agendamentos no mesmo hor''
            @ [CHR 0xE1] @ ''rio'',
          location_cr = dayTime0,
          slotId_cr = id_slot slot\<rparr>)"

definition detectDuplicateRoomsOrTimes ::
  "InternalAI \<Rightarrow> RoomImportData \<Rightarrow> error + (InternalAI \<times> RoomImportData)" where
  "detectDuplicateRoomsOrTimes this roomImportData =
     (case slotsByRoomDayTime (schedule roomImportData) of
        Inl e \<Rightarrow> Inl e
      | Inr groups \<Rightarrow>
          (case reportGroups duplicateRoomConflict duplicateRoomChange groups
                  (schedule roomImportData) this of
             (sched', this') \<Rightarrow> Inr (this', roomImportData\<lparr>schedule := sched'\<rparr>)))"

subsection \<open>\<open>_checkInactiveProfessionals\<close>\<close>

text \<open>The callback of the \<open>forEach\<close> (source lines 368--394).\<close>

definition checkInactiveProfessional ::
  "Professional list \<Rightarrow> Slot \<Rightarrow> InternalAI \<Rightarrow> Slot \<times> InternalAI" where
  "checkInactiveProfessional professionals slot this =
     (if \<not> isOccupied slot \<or> \<not> truthy (professionalId slot) then (slot, this)
      else
        (case find (\<lambda>p. Some (id_prof p) = professionalId slot) professionals of
           None \<Rightarrow> (slot, this)
         | Some professional \<Rightarrow>
             if inactive professional then
               (slot\<lparr>hasValidationError := True\<rparr>,
                this\<lparr>conflicts := conflicts this @
                         [ProfissionalInativo (name_prof professional) (patientName slot)
                            (roomName slot) (dayTime slot) (id_slot slot)],
                      suggestedChanges := suggestedChanges this @
                         [\<lparr>type_cr = ProfissionalInativoChange,
                           description = ''Profissional '' @ quoted (name_prof professional)
                             @ '' est'' @ [CHR 0xE1] @ '' inativo'',
                           location_cr = location slot,
                           slotId_cr = id_slot slot\<rparr>]\<rparr>)
             else (slot, this)))"

definition checkInactiveProfessionals ::
  "InternalAI \<Rightarrow> RoomImportData \<Rightarrow> Professional list \<Rightarrow> InternalAI \<times> RoomImportData" where
  "checkInactiveProfessionals this roomImportData professionals =
     (case forEachSlot (checkInactiveProfessional professionals) (schedule roomImportData) this of
        (sched', this') \<Rightarrow> (this', roomImportData\<lparr>schedule := sched'\<rparr>))"

section \<open>ReconciliationEngine: \<open>processImportedData\<close>\<close>

text \<open>
  The method snapshots its input, resets the four lists, and runs the four steps in order.
  The object it returns holds the four lists of the engine and, as \<open>processedData\<close>, the three
  fields of the mutated \<open>roomImportData\<close>: the model returns the engine and that data. A
  \<open>TypeError\<close> thrown by a step propagates to the caller.
\<close>

definition processImportedData ::
  "(nat \<Rightarrow> string) \<Rightarrow> InternalAI \<Rightarrow> RoomImportData \<Rightarrow> Professional list \<Rightarrow> Appointment list
     \<Rightarrow> error + (InternalAI \<times> RoomImportData)" where
  "processImportedData stamp this roomImportData professionals appointments =
     (let this0 = this\<lparr>originalData := Some roomImportData,
                       suggestedChanges := [], conflicts := [],
                       validationErrors := [], autoCorrections := []\<rparr>
      in case validateNames stamp this0 roomImportData professionals appointments of
           (this1, data1) \<Rightarrow>
             (case detectScheduleConflicts this1 data1 professionals appointments of
                Inl e \<Rightarrow> Inl e
              | Inr (this2, data2) \<Rightarrow>
                  (case detectDuplicateRoomsOrTimes this2 data2 of
                     Inl e \<Rightarrow> Inl e
                   | Inr (this3, data3) \<Rightarrow>
                       Inr (checkInactiveProfessionals this3 data3 professionals))))"

section \<open>Notions used in the statements and proofs\<close>

text \<open>
  The positions of the slots a grouping loop files under the key \<open>k\<close>, in schedule order.
\<close>

definition groupMembers :: "(Slot \<Rightarrow> bool) \<Rightarrow> (Slot \<Rightarrow> string) \<Rightarrow> Slot list \<Rightarrow> string \<Rightarrow> nat list" where
  "groupMembers skip key sched k =
     filter (\<lambda>i. \<not> skip (sched ! i) \<and> key (sched ! i) = k) [0..<length sched]"

text \<open>
  What a grouping loop has built after a schedule: one entry for each key that occurs, holding
  the positions of the slots filed under it.
\<close>

definition groupsOf :: "(Slot \<Rightarrow> bool) \<Rightarrow> (Slot \<Rightarrow> string) \<Rightarrow> Slot list \<Rightarrow> Groups \<Rightarrow> bool" where
  "groupsOf skip key sched groups \<longleftrightarrow>
     distinct (map fst groups) \<and>
     (\<forall>k. map_of groups k =
        (if groupMembers skip key sched k = [] then None
         else Some (groupMembers skip key sched k)))"

text \<open>
  A slot with its two flags erased: what the conflict passes never change.
\<close>

definition staticPart :: "Slot \<Rightarrow> Slot" where
  "staticPart slot = slot\<lparr>hasScheduleConflict := False, hasValidationError := False\<rparr>"

text \<open>
  The schedule with \<open>hasScheduleConflict\<close> set at the positions in \<open>M\<close>.
\<close>

definition markedIn :: "nat set \<Rightarrow> Slot list \<Rightarrow> Slot list" where
  "markedIn M sched =
     map (\<lambda>j. if j \<in> M then (sched ! j)\<lparr>hasScheduleConflict := True\<rparr> else sched ! j)
       [0..<length sched]"

text \<open>
  The groups with more than one member, the ones reported as conflicts.
\<close>

definition bigGroups :: "Groups \<Rightarrow> Groups" where
  "bigGroups groups = filter (\<lambda>(k, g). 1 < length g) groups"

text \<open>
  Every member of every group is a position of the schedule.
\<close>

definition inRange :: "Groups \<Rightarrow> Slot list \<Rightarrow> bool" where
  "inRange groups sched \<longleftrightarrow> (\<forall>(k, g)\<in>set groups. \<forall>i\<in>set g. i < length sched)"

text \<open>
  An engine with empty lists, and what a callback does to a slot and pushes when started from it.
\<close>

definition emptyAI :: InternalAI where
  "emptyAI = \<lparr>originalData = None, suggestedChanges = [], conflicts = [],
              validationErrors = [], autoCorrections = []\<rparr>"

definition slotOf :: "(Slot \<Rightarrow> InternalAI \<Rightarrow> Slot \<times> InternalAI) \<Rightarrow> Slot \<Rightarrow> Slot" where
  "slotOf callback slot = fst (callback slot emptyAI)"

definition conflictsOf :: "(Slot \<Rightarrow> InternalAI \<Rightarrow> Slot \<times> InternalAI) \<Rightarrow> Slot \<Rightarrow> Conflict list" where
  "conflictsOf callback slot = conflicts (snd (callback slot emptyAI))"

definition changesOf :: "(Slot \<Rightarrow> InternalAI \<Rightarrow> Slot \<times> InternalAI) \<Rightarrow> Slot \<Rightarrow> ChangeRecord list" where
  "changesOf callback slot = suggestedChanges (snd (callback slot emptyAI))"

text \<open>
  A callback is uniform when what it does to the slot and what it pushes do not depend on the
  engine it is given.
\<close>

definition uniform :: "(Slot \<Rightarrow> InternalAI \<Rightarrow> Slot \<times> InternalAI) \<Rightarrow> bool" where
  "uniform callback \<longleftrightarrow>
     (\<forall>slot this. callback slot this =
        (slotOf callback slot,
         this\<lparr>conflicts := conflicts this @ conflictsOf callback slot,
              suggestedChanges := suggestedChanges this @ changesOf callback slot\<rparr>))"

text \<open>
  The slot ids a conflict carries, and the slot ids carried by any record of the engine.
\<close>

fun conflictSlotIds :: "Conflict \<Rightarrow> string set" where
  "conflictSlotIds (ProfissionalEmMultiplasSalas pn rooms dt ids) = set ids"
| "conflictSlotIds (ConflitoComAgendamentoExistente pn pat room dt apts sid) = {sid}"
| "conflictSlotIds (SalaComMultiplosAgendamentos room dt pats profs ids) = set ids"
| "conflictSlotIds (ProfissionalInativo pn pat room dt sid) = {sid}"

definition slotIds :: "InternalAI \<Rightarrow> string set" where
  "slotIds this =
     slotId_cr ` set (suggestedChanges this) \<union> slotId_ve ` set (validationErrors this)
       \<union> slotId_ac ` set (autoCorrections this) \<union> (\<Union>c\<in>set (conflicts this). conflictSlotIds c)"

text \<open>
  The ids of the occupied slots of a schedule.
\<close>

definition occupiedIds :: "Slot list \<Rightarrow> string set" where
  "occupiedIds sched = id_slot ` {slot \<in> set sched. isOccupied slot}"

text \<open>
  A slot with the fields erased that name validation may change: the two names and the
  professional id.
\<close>

definition namesErased :: "Slot \<Rightarrow> Slot" where
  "namesErased slot = slot\<lparr>patientName := None, professionalName := None, professionalId := None\<rparr>"

text \<open>
  The positions a reporting loop marks: the members of the groups with more than one member.
\<close>

definition markedSet :: "Groups \<Rightarrow> nat set" where
  "markedSet groups = (\<Union>(k, g)\<in>set (bigGroups groups). set g)"

text \<open>
  The early \<open>return\<close> of the two grouping callbacks.
\<close>

definition skipProf :: "Slot \<Rightarrow> bool" where
  "skipProf slot \<longleftrightarrow> \<not> isOccupied slot \<or> \<not> truthy (professionalId slot)"

definition skipRoom :: "Slot \<Rightarrow> bool" where
  "skipRoom slot \<longleftrightarrow> \<not> isOccupied slot"

text \<open>
  The registry professional a slot resolves to, when the slot is occupied, has a professional id,
  and the first registry entry with that id is flagged inactive.
\<close>

definition inactiveProfessional :: "Professional list \<Rightarrow> Slot \<Rightarrow> Professional option" where
  "inactiveProfessional professionals slot =
     (if isOccupied slot \<and> truthy (professionalId slot) then
        (case find (\<lambda>p. Some (id_prof p) = professionalId slot) professionals of
           None \<Rightarrow> None
         | Some p \<Rightarrow> if inactive p then Some p else None)
      else None)"

text \<open>
  The conflicts of kind \<open>'Profissional Inativo'\<close>.
\<close>

fun isProfissionalInativo :: "Conflict \<Rightarrow> bool" where
  "isProfissionalInativo (ProfissionalInativo pn pat room dt sid) = True"
| "isProfissionalInativo c = False"

text \<open>
  The intermediate states of a run that returns: the engine and data after name validation, the
  groups of the two grouping loops, and the schedule after the double-booking loop (\<open>s2\<close>), after
  the check against existing appointments (\<open>s3\<close>) and after the duplicate-room loop (\<open>s4\<close>).
\<close>

definition runSteps ::
  "(nat \<Rightarrow> string) \<Rightarrow> InternalAI \<Rightarrow> RoomImportData \<Rightarrow> Professional list \<Rightarrow> Appointment list
     \<Rightarrow> InternalAI \<Rightarrow> RoomImportData \<Rightarrow> InternalAI \<Rightarrow> RoomImportData \<Rightarrow> Groups \<Rightarrow> Groups
     \<Rightarrow> Slot list \<Rightarrow> Slot list \<Rightarrow> Slot list \<Rightarrow> bool" where
  "runSteps stamp this data profs apts ai out this1 data1 groupsP groupsR s2 s3 s4 \<longleftrightarrow>
     (validateNames stamp
       (this\<lparr>originalData := Some data, suggestedChanges := [], conflicts := [],
             validationErrors := [], autoCorrections := []\<rparr>) data profs apts = (this1, data1)) \<and>
     (groupsOf skipProf profDayTimeKey (schedule data1) groupsP) \<and>
     (s2 = markedIn (markedSet groupsP) (schedule data1)) \<and>
     (s3 = map (slotOf (checkExistingAppointment apts)) s2) \<and>
     (groupsOf skipRoom roomDayTimeKey s3 groupsR) \<and>
     (s4 = markedIn (markedSet groupsR) s3) \<and>
     (schedule out = map (slotOf (checkInactiveProfessional profs)) s4) \<and>
     (newProfessionals out = newProfessionals data1) \<and>
     (conflicts ai =
       map (\<lambda>(k, g). doubleBookingConflict (schedule data1) g) (bigGroups groupsP)
       @ concat (map (conflictsOf (checkExistingAppointment apts)) s2)
       @ map (\<lambda>(k, g). duplicateRoomConflict s3 g) (bigGroups groupsR)
       @ concat (map (conflictsOf (checkInactiveProfessional profs)) s4)) \<and>
     (suggestedChanges ai =
       suggestedChanges this1
       @ concat (map (\<lambda>(k, g). map (\<lambda>i. doubleBookingChange (schedule data1) g (schedule data1 ! i)) g)
           (bigGroups groupsP))
       @ concat (map (changesOf (checkExistingAppointment apts)) s2)
       @ concat (map (\<lambda>(k, g). map (\<lambda>i. duplicateRoomChange s3 g (s3 ! i)) g) (bigGroups groupsR))
       @ concat (map (changesOf (checkInactiveProfessional profs)) s4)) \<and>
     (validationErrors ai = validationErrors this1) \<and>
     (autoCorrections ai = autoCorrections this1)"

text \<open>
  No underscore in the appointment date, the time and the day of week of a slot.
\<close>

definition underscoreFree :: "Slot \<Rightarrow> bool" where
  "underscoreFree slot \<longleftrightarrow>
     CHR ''_'' \<notin> set (appointmentDate slot) \<and> CHR ''_'' \<notin> set (time_slot slot)
       \<and> CHR ''_'' \<notin> set (dayOfWeek slot)"

text \<open>
  An occupied slot whose professional name is non-empty and has the normalised form \<open>n\<close>.
\<close>

definition namedLike :: "string \<Rightarrow> Slot \<Rightarrow> bool" where
  "namedLike n slot \<longleftrightarrow>
     isOccupied slot \<and>
     (case professionalName slot of
        None \<Rightarrow> False
      | Some pname \<Rightarrow> pname \<noteq> [] \<and> trim (toLowerCase pname) = n)"

text \<open>
  The entries of \<open>newProfessionals\<close> whose name has the normalised form \<open>n\<close>.
\<close>

definition profsNamed :: "string \<Rightarrow> Professional list \<Rightarrow> Professional list" where
  "profsNamed n newProfs = filter (\<lambda>p. trim (toLowerCase (name_prof p)) = n) newProfs"

text \<open>
  A time value that is non-empty and free of underscores.
\<close>

definition plainTime :: "Slot \<Rightarrow> bool" where
  "plainTime slot \<longleftrightarrow> time_slot slot \<noteq> [] \<and> CHR ''_'' \<notin> set (time_slot slot)"

text \<open>
  Sample data for the worked examples.
\<close>

definition exSlot :: "string \<Rightarrow> string \<Rightarrow> string option \<Rightarrow> string option \<Rightarrow> Slot" where
  "exSlot sid room pname pid =
     \<lparr>id_slot = sid, roomName = room, dayOfWeek = ''Seg'', time_slot = ''09:00'',
      appointmentDate = ''2024-01-01'', isOccupied = True, patientName = None,
      professionalName = pname, professionalId = pid, linkedAppointmentId = None,
      hasScheduleConflict = False, hasValidationError = False\<rparr>"

definition exEngine :: InternalAI where
  "exEngine = \<lparr>originalData = None, suggestedChanges = [], conflicts = [],
               validationErrors = [], autoCorrections = []\<rparr>"

definition exData :: "Slot list \<Rightarrow> RoomImportData" where
  "exData sched = \<lparr>schedule = sched, newProfessionals = [], updatedAppointments = []\<rparr>"

definition exStamp :: "nat \<Rightarrow> string" where
  "exStamp i = ''1700000000000_0.5''"

definition exProfessional :: "string \<Rightarrow> string \<Rightarrow> bool \<Rightarrow> Professional" where
  "exProfessional pid pname off =
     \<lparr>id_prof = pid, name_prof = pname, specialty = ''Fono'', registration = ''123'',
      inactive = off\<rparr>"

definition exAppointment :: "string \<Rightarrow> string \<Rightarrow> string \<Rightarrow> Appointment" where
  "exAppointment aid cl pid =
     \<lparr>id_apt = aid, client = cl, professionalId_apt = pid, date = ''2024-01-01'',
      time_apt = ''09:00'', type_apt = ''Consulta''\<rparr>"

section \<open>Edit distance: the recursion and the edit scripts\<close>

lemma editDistance_Nil2 [simp]: "editDistance xs [] = length xs"
  by (cases xs) simp_all

lemma edits_editDistance: "edits xs ys (editDistance xs ys)"
proof (induction xs ys rule: editDistance.induct)
  case (1 ys)
  show ?case by (induction ys) (auto intro: edits.intros)
next
  case (2 x xs)
  have "edits zs [] (length zs)" for zs :: "'a list"
    by (induction zs) (auto intro: edits.intros)
  from this [of "x # xs"] show ?case by simp
next
  case (3 x xs y ys)
  let ?a = "editDistance xs ys + (if x = y then 0 else 1)"
  let ?b = "editDistance xs (y # ys) + 1"
  let ?c = "editDistance (x # xs) ys + 1"
  have a: "edits (x # xs) (y # ys) ?a"
    using 3(1) by (auto intro: edits.intros)
  have b: "edits (x # xs) (y # ys) ?b"
    using 3(2) by (auto intro: edits.intros)
  have c: "edits (x # xs) (y # ys) ?c"
    using 3(3) by (auto intro: edits.intros)
  have "editDistance (x # xs) (y # ys) = ?a \<or> editDistance (x # xs) (y # ys) = ?b
      \<or> editDistance (x # xs) (y # ys) = ?c"
    by (simp add: min_def)
  with a b c show ?case by metis
qed

lemma editDistance_Cons1_le: "editDistance (x # xs) ys \<le> Suc (editDistance xs ys)"
  by (cases ys) simp_all

lemma editDistance_Cons2_le: "editDistance xs (y # ys) \<le> Suc (editDistance xs ys)"
  by (cases xs) simp_all

lemma editDistance_le_edits: "edits xs ys n \<Longrightarrow> editDistance xs ys \<le> n"
proof (induction rule: edits.induct)
  case e_nil
  show ?case by simp
next
  case (e_del xs ys n x)
  then show ?case using editDistance_Cons1_le [of x xs ys] by linarith
next
  case (e_ins xs ys n y)
  then show ?case using editDistance_Cons2_le [of xs y ys] by linarith
next
  case (e_keep xs ys n x)
  then show ?case by simp
next
  case (e_sub xs ys n x y)
  then show ?case by (simp add: min_le_iff_disj)
qed

lemma edits_snoc_del: "edits xs ys n \<Longrightarrow> edits (xs @ [x]) ys (Suc n)"
  by (induction rule: edits.induct) (auto intro: edits.intros)

lemma edits_snoc_ins: "edits xs ys n \<Longrightarrow> edits xs (ys @ [y]) (Suc n)"
  by (induction rule: edits.induct) (auto intro: edits.intros)

lemma edits_snoc_keep: "edits xs ys n \<Longrightarrow> edits (xs @ [x]) (ys @ [x]) n"
  by (induction rule: edits.induct) (auto intro: edits.intros)

lemma edits_snoc_sub: "edits xs ys n \<Longrightarrow> edits (xs @ [x]) (ys @ [y]) (Suc n)"
  by (induction rule: edits.induct) (auto intro: edits.intros)

lemma edits_rev: "edits xs ys n \<Longrightarrow> edits (rev xs) (rev ys) n"
  by (induction rule: edits.induct)
     (auto intro: edits.intros edits_snoc_del edits_snoc_ins edits_snoc_keep edits_snoc_sub)

lemma edits_sym: "edits xs ys n \<Longrightarrow> edits ys xs n"
  by (induction rule: edits.induct) (auto intro: edits.intros)

lemma editDistance_rev: "editDistance (rev xs) (rev ys) = editDistance xs ys"
proof (rule antisym)
  show "editDistance (rev xs) (rev ys) \<le> editDistance xs ys"
    by (rule editDistance_le_edits [OF edits_rev [OF edits_editDistance]])
  have "edits (rev (rev xs)) (rev (rev ys)) (editDistance (rev xs) (rev ys))"
    by (rule edits_rev [OF edits_editDistance])
  then show "editDistance xs ys \<le> editDistance (rev xs) (rev ys)"
    using editDistance_le_edits by fastforce
qed

lemma editDistance_sym: "editDistance xs ys = editDistance ys xs"
  by (rule antisym) (rule editDistance_le_edits [OF edits_sym [OF edits_editDistance]])+

lemma edits_drop_ins: "edits xs zs n \<Longrightarrow> zs = y # ys \<Longrightarrow> \<exists>m\<le>Suc n. edits xs ys m"
proof (induction arbitrary: y ys rule: edits.induct)
  case e_nil
  then show ?case by simp
next
  case (e_del xs zs n x)
  then obtain m where "m \<le> Suc n" "edits xs ys m" by blast
  then have "Suc m \<le> Suc (Suc n)" "edits (x # xs) ys (Suc m)"
    by (auto intro: edits.e_del)
  then show ?case by blast
next
  case (e_ins xs ys' n y')
  then have "edits xs ys n" by simp
  moreover have "n \<le> Suc (Suc n)" by simp
  ultimately show ?case by blast
next
  case (e_keep xs ys' n x)
  then have "edits (x # xs) ys (Suc n)" by (auto intro: edits.e_del)
  then show ?case by blast
next
  case (e_sub xs ys' n x y')
  then have "edits (x # xs) ys (Suc n)" by (auto intro: edits.e_del)
  moreover have "Suc n \<le> Suc (Suc n)" by simp
  ultimately show ?case by blast
qed

lemma editDistance_drop2: "editDistance xs ys \<le> Suc (editDistance xs (y # ys))"
proof -
  obtain m where "m \<le> Suc (editDistance xs (y # ys))" "edits xs ys m"
    using edits_drop_ins [OF edits_editDistance [of xs "y # ys"] refl] by blast
  then show ?thesis using editDistance_le_edits [of xs ys m] by linarith
qed

lemma editDistance_drop1: "editDistance xs ys \<le> Suc (editDistance (x # xs) ys)"
  using editDistance_drop2 [of ys xs x] by (simp add: editDistance_sym [of xs] editDistance_sym [of "x # xs"])

lemma editDistance_snoc:
  "editDistance (xs @ [x]) (ys @ [y]) =
     (if x = y then editDistance xs ys
      else min (editDistance xs ys + 1)
             (min (editDistance (xs @ [x]) ys + 1) (editDistance xs (ys @ [y]) + 1)))"
proof -
  have "editDistance (xs @ [x]) (ys @ [y]) = editDistance (x # rev xs) (y # rev ys)"
    using editDistance_rev [of "xs @ [x]" "ys @ [y]"] by simp
  also have "\<dots> = min (editDistance (rev xs) (rev ys) + (if x = y then 0 else 1))
       (min (editDistance (rev xs) (y # rev ys) + 1) (editDistance (x # rev xs) (rev ys) + 1))"
    by simp
  also have "editDistance (rev xs) (y # rev ys) = editDistance xs (ys @ [y])"
    using editDistance_rev [of xs "ys @ [y]"] by simp
  also have "editDistance (x # rev xs) (rev ys) = editDistance (xs @ [x]) ys"
    using editDistance_rev [of "xs @ [x]" ys] by simp
  also have "editDistance (rev xs) (rev ys) = editDistance xs ys"
    by (rule editDistance_rev)
  finally have eq: "editDistance (xs @ [x]) (ys @ [y]) =
      min (editDistance xs ys + (if x = y then 0 else 1))
       (min (editDistance xs (ys @ [y]) + 1) (editDistance (xs @ [x]) ys + 1))" .
  have d1: "editDistance xs ys \<le> Suc (editDistance xs (ys @ [y]))"
    using editDistance_drop2 [of "rev xs" "rev ys" y] editDistance_rev [of xs "ys @ [y]"]
      editDistance_rev [of xs ys] by simp
  have d2: "editDistance xs ys \<le> Suc (editDistance (xs @ [x]) ys)"
    using editDistance_drop1 [of "rev xs" "rev ys" x] editDistance_rev [of "xs @ [x]" ys]
      editDistance_rev [of xs ys] by simp
  show ?thesis using eq d1 d2 by (auto simp: min_def)
qed

section \<open>The dynamic programme computes the edit distance\<close>

lemma prefixDist_0 [simp]: "j \<le> length str1 \<Longrightarrow> prefixDist str1 str2 0 j = j"
  by (simp add: prefixDist_def)

lemma prefixDist_0' [simp]: "i \<le> length str2 \<Longrightarrow> prefixDist str1 str2 i 0 = i"
  by (simp add: prefixDist_def)

lemma prefixDist_Suc:
  assumes "i < length str2" "j < length str1"
  shows "prefixDist str1 str2 (Suc i) (Suc j) =
     (if str2 ! i = str1 ! j then prefixDist str1 str2 i j
      else min (prefixDist str1 str2 i j + 1)
             (min (prefixDist str1 str2 (Suc i) j + 1) (prefixDist str1 str2 i (Suc j) + 1)))"
  using assms editDistance_snoc [of "take i str2" "str2 ! i" "take j str1" "str1 ! j"]
  by (simp add: prefixDist_def take_Suc_conv_app_nth)

lemma initRows_fold:
  "fold (\<lambda>i matrix. arraySet matrix i [i]) [0..<k] [] = map (\<lambda>i. [i]) [0..<k]"
  by (induction k) (simp_all add: arraySet_def)

lemma initRows_eq: "initRows str2 = map (\<lambda>i. [i]) [0..<Suc (length str2)]"
  unfolding initRows_def by (rule initRows_fold)

lemma initFirstRow_fold:
  assumes "matrix0 \<noteq> []" "matrix0 ! 0 = [0]"
  shows "fold (\<lambda>j matrix. matrix[0 := arraySet (matrix ! 0) j j]) [0..<Suc k] matrix0
           = matrix0[0 := [0..<Suc k]]"
proof (induction k)
  case 0
  show ?case using assms by (simp add: arraySet_def)
next
  case (Suc k)
  have "[0..<Suc (Suc k)] = [0..<Suc k] @ [Suc k]" by simp
  then show ?case using assms Suc by (simp add: arraySet_def del: upt_Suc)
qed

lemma initFirstRow_eq:
  "initFirstRow str1 (initRows str2)
     = (map (\<lambda>i. [i]) [0..<Suc (length str2)])[0 := [0..<Suc (length str1)]]"
  unfolding initFirstRow_def initRows_eq
  by (rule initFirstRow_fold) (simp_all add: upt_rec [of 0])

lemma rowsFilled_init: "rowsFilled str1 str2 1 (initFirstRow str1 (initRows str2))"
  unfolding initFirstRow_eq rowsFilled_def
proof (intro conjI allI impI)
  show "length ((map (\<lambda>i. [i]) [0..<Suc (length str2)])[0 := [0..<Suc (length str1)]])
      = Suc (length str2)" by simp
next
  fix i :: nat assume "i < 1"
  then have i: "i = 0" by simp
  have "map (prefixDist str1 str2 0) [0..<Suc (length str1)] = map (\<lambda>j. j) [0..<Suc (length str1)]"
    by (rule map_cong) auto
  then show "(map (\<lambda>i. [i]) [0..<Suc (length str2)])[0 := [0..<Suc (length str1)]] ! i
      = map (prefixDist str1 str2 i) [0..<Suc (length str1)]"
    unfolding i by (simp del: upt_Suc)
next
  fix i assume "1 \<le> i \<and> i \<le> length str2"
  then show "(map (\<lambda>i. [i]) [0..<Suc (length str2)])[0 := [0..<Suc (length str1)]] ! i = [i]"
    by (simp del: upt_Suc add: nth_map_upt)
qed

lemma cell_prefixDist:
  assumes inv: "rowsFilled str1 str2 i matrix0"
    and i: "1 \<le> i" "i \<le> length str2" and j: "1 \<le> j" "j \<le> length str1"
    and m: "matrix = matrix0[i := map (prefixDist str1 str2 i) [0..<j]]"
  shows "cell str1 str2 matrix i j = prefixDist str1 str2 i j"
proof -
  obtain i' j' where ij: "i = Suc i'" "j = Suc j'"
    using i j by (metis Suc_le_D One_nat_def)
  have len: "length matrix0 = Suc (length str2)"
    using inv by (simp add: rowsFilled_def)
  have up: "matrix ! i' = map (prefixDist str1 str2 i') [0..<Suc (length str1)]"
    using inv ij m by (simp add: rowsFilled_def)
  have cur: "matrix ! i = map (prefixDist str1 str2 i) [0..<j]"
    using m len i by simp
  have diag: "matrix ! i' ! j' = prefixDist str1 str2 i' j'"
    unfolding up using ij j by (simp del: upt_Suc add: nth_map_upt)
  have above: "matrix ! i' ! j = prefixDist str1 str2 i' j"
    unfolding up using ij j by (simp del: upt_Suc add: nth_map_upt)
  have left: "matrix ! i ! j' = prefixDist str1 str2 i j'"
    unfolding cur using ij by (simp del: upt_Suc add: nth_map_upt)
  have ch: "charAt str2 i' = charAt str1 j' \<longleftrightarrow> str2 ! i' = str1 ! j'"
    using i j ij by (simp add: charAt_def)
  have "cell str1 str2 matrix i j =
     (if str2 ! i' = str1 ! j' then prefixDist str1 str2 i' j'
      else min (prefixDist str1 str2 i' j' + 1)
             (min (prefixDist str1 str2 i j' + 1) (prefixDist str1 str2 i' j + 1)))"
    using diag above left ch by (simp add: cell_def ij)
  also have "\<dots> = prefixDist str1 str2 i j"
    using prefixDist_Suc [of i' str2 j' str1] i j ij by simp
  finally show ?thesis .
qed

lemma fillRow_fold:
  assumes inv: "rowsFilled str1 str2 i matrix0"
    and i: "1 \<le> i" "i \<le> length str2"
  shows "k \<le> length str1 \<Longrightarrow>
     fold (\<lambda>j matrix. matrix[i := arraySet (matrix ! i) j (cell str1 str2 matrix i j)])
       [1..<Suc k] matrix0 = matrix0[i := map (prefixDist str1 str2 i) [0..<Suc k]]"
proof (induction k)
  case 0
  have "matrix0 ! i = [i]" using inv i by (simp add: rowsFilled_def)
  then have "matrix0[i := [i]] = matrix0" using list_update_id [of matrix0 i] by simp
  then show ?case using i by simp
next
  case (Suc k)
  let ?m = "matrix0[i := map (prefixDist str1 str2 i) [0..<Suc k]]"
  have len: "length matrix0 = Suc (length str2)"
    using inv by (simp add: rowsFilled_def)
  have c: "cell str1 str2 ?m i (Suc k) = prefixDist str1 str2 i (Suc k)"
    using cell_prefixDist [OF inv i _ _ refl, of "Suc k"] Suc.prems by simp
  have row: "?m ! i = map (prefixDist str1 str2 i) [0..<Suc k]"
    using len i by simp
  have "arraySet (?m ! i) (Suc k) (cell str1 str2 ?m i (Suc k))
      = map (prefixDist str1 str2 i) [0..<Suc (Suc k)]"
    unfolding row c by (simp add: arraySet_def)
  moreover have "[1..<Suc (Suc k)] = [1..<Suc k] @ [Suc k]" by simp
  ultimately show ?case using Suc by (simp del: upt_Suc)
qed

lemma rowsFilled_fillRow:
  assumes inv: "rowsFilled str1 str2 i matrix0"
    and i: "1 \<le> i" "i \<le> length str2"
  shows "rowsFilled str1 str2 (Suc i) (fillRow str1 str2 i matrix0)"
proof -
  have eq: "fillRow str1 str2 i matrix0
      = matrix0[i := map (prefixDist str1 str2 i) [0..<Suc (length str1)]]"
    unfolding fillRow_def by (rule fillRow_fold [OF inv i]) simp
  have len: "length matrix0 = Suc (length str2)"
    using inv by (simp add: rowsFilled_def)
  show ?thesis
    unfolding eq rowsFilled_def
  proof (intro conjI allI impI)
    show "length (matrix0[i := map (prefixDist str1 str2 i) [0..<Suc (length str1)]])
        = Suc (length str2)" using len by simp
  next
    fix k assume "k < Suc i"
    then show "matrix0[i := map (prefixDist str1 str2 i) [0..<Suc (length str1)]] ! k
        = map (prefixDist str1 str2 k) [0..<Suc (length str1)]"
      using inv len i by (cases "k = i") (simp_all add: rowsFilled_def)
  next
    fix k assume "Suc i \<le> k \<and> k \<le> length str2"
    then show "matrix0[i := map (prefixDist str1 str2 i) [0..<Suc (length str1)]] ! k = [k]"
      using inv by (simp add: rowsFilled_def)
  qed
qed

lemma rowsFilled_fillMatrix:
  assumes "rowsFilled str1 str2 1 matrix0"
  shows "k \<le> length str2 \<Longrightarrow>
     rowsFilled str1 str2 (Suc k) (fold (\<lambda>i matrix. fillRow str1 str2 i matrix) [1..<Suc k] matrix0)"
proof (induction k)
  case 0
  show ?case using assms by simp
next
  case (Suc k)
  have "[1..<Suc (Suc k)] = [1..<Suc k] @ [Suc k]" by simp
  then show ?case
    using rowsFilled_fillRow [of str1 str2 "Suc k"] Suc by (simp del: upt_Suc)
qed

lemma levenshteinDistance_prefixDist:
  "levenshteinDistance str1 str2 = editDistance str2 str1"
proof -
  let ?m = "fillMatrix str1 str2 (initFirstRow str1 (initRows str2))"
  have "rowsFilled str1 str2 (Suc (length str2)) ?m"
    unfolding fillMatrix_def by (rule rowsFilled_fillMatrix [OF rowsFilled_init]) simp
  then have "?m ! length str2 = map (prefixDist str1 str2 (length str2)) [0..<Suc (length str1)]"
    by (simp add: rowsFilled_def)
  then have "?m ! length str2 ! length str1 = prefixDist str1 str2 (length str2) (length str1)"
    by (simp del: upt_Suc add: nth_map_upt)
  then show ?thesis by (simp add: levenshteinDistance_def prefixDist_def)
qed

lemma levenshteinDistance_eq:
  "levenshteinDistance a b = editDistance a b"
  by (simp add: levenshteinDistance_prefixDist editDistance_sym [of b a])

section \<open>Similarity and closest match\<close>

lemma editDistance_le_max: "editDistance xs ys \<le> max (length xs) (length ys)"
proof (induction xs ys rule: editDistance.induct)
  case (3 x xs y ys)
  have "editDistance (x # xs) (y # ys) \<le> editDistance xs ys + 1"
    by (simp add: min_le_iff_disj)
  with 3(1) show ?case by simp
qed simp_all

lemma editDistance_same [simp]: "editDistance xs xs = 0"
  by (induction xs) simp_all

lemma levenshteinDistance_le:
  "length shorter \<le> length longer \<Longrightarrow> levenshteinDistance longer shorter \<le> length longer"
  using editDistance_le_max [of longer shorter]
  by (simp add: levenshteinDistance_eq)

lemma closestLoop_find:
  "closestLoop n reg = find (\<lambda>r. str_includes r n \<or> str_includes n r \<or> calculateSimilarity n r > 4 / 5) reg"
  by (induction reg) auto

lemma find_eq_self: "find (\<lambda>r. r = n) reg = (if n \<in> set reg then Some n else None)"
  by (induction reg) auto

lemma findClosestMatch_find:
  "findClosestMatch name reg =
     (let n = trim (toLowerCase name)
      in if n \<in> set reg \<and> n \<noteq> [] then Some n
         else find (\<lambda>r. str_includes r n \<or> str_includes n r \<or> calculateSimilarity n r > 4 / 5) reg)"
  by (simp add: findClosestMatch_def Let_def find_eq_self closestLoop_find)

section \<open>Grouping, marking and the passes of a run\<close>

lemma groupMembers_snoc:
  "groupMembers skip key (pre @ [x]) k =
     groupMembers skip key pre k @ (if \<not> skip x \<and> key x = k then [length pre] else [])"
proof -
  have "filter (\<lambda>i. \<not> skip ((pre @ [x]) ! i) \<and> key ((pre @ [x]) ! i) = k) [0..<length pre]
      = filter (\<lambda>i. \<not> skip (pre ! i) \<and> key (pre ! i) = k) [0..<length pre]"
    by (rule filter_cong) (auto simp: nth_append)
  then show ?thesis by (simp add: groupMembers_def)
qed

lemma groupsOf_Nil: "groupsOf skip key [] []"
  by (simp add: groupsOf_def groupMembers_def)

lemma groupsOf_skip:
  assumes "groupsOf skip key pre groups" "skip x"
  shows "groupsOf skip key (pre @ [x]) groups"
  using assms by (simp add: groupsOf_def groupMembers_snoc)

lemma groupsOf_push:
  assumes inv: "groupsOf skip key pre groups" and x: "\<not> skip x"
    and push: "groupPush groups (key x) (length pre) = Inr groups'"
  shows "groupsOf skip key (pre @ [x]) groups'"
proof (cases "map_of groups (key x)")
  case None
  then have g': "groups' = groups @ [(key x, [length pre])]"
    using push by (simp add: groupPush_def split: if_splits)
  have notin: "key x \<notin> fst ` set groups"
    using None by (simp add: map_of_eq_None_iff)
  have empty: "groupMembers skip key pre (key x) = []"
    using inv None by (simp add: groupsOf_def split: if_splits)
  have d: "distinct (map fst groups')"
    using inv notin by (simp add: groupsOf_def g')
  have m: "map_of groups' k =
        (if groupMembers skip key (pre @ [x]) k = [] then None
         else Some (groupMembers skip key (pre @ [x]) k))" for k
  proof (cases "k = key x")
    case True
    then show ?thesis using None empty x
      by (simp add: g' groupMembers_snoc map_add_def)
  next
    case False
    then show ?thesis using inv x
      by (simp add: g' groupMembers_snoc map_add_def groupsOf_def split: option.splits)
  qed
  show ?thesis using d m by (simp add: groupsOf_def)
next
  case (Some members)
  then have g': "groups' = AList.update (key x) (members @ [length pre]) groups"
    using push by (simp add: groupPush_def)
  have mem: "groupMembers skip key pre (key x) = members"
    using inv Some by (simp add: groupsOf_def split: if_splits)
  have d: "distinct (map fst groups')"
    using inv by (simp add: groupsOf_def g' distinct_update)
  have m: "map_of groups' k =
        (if groupMembers skip key (pre @ [x]) k = [] then None
         else Some (groupMembers skip key (pre @ [x]) k))" for k
  proof (cases "k = key x")
    case True
    then show ?thesis using mem x
      by (simp add: g' groupMembers_snoc update_conv')
  next
    case False
    then show ?thesis using inv x
      by (simp add: g' groupMembers_snoc update_conv' groupsOf_def)
  qed
  show ?thesis using d m by (simp add: groupsOf_def)
qed

lemma groupSlots_groupsOf:
  "groupsOf skip key pre groups \<Longrightarrow> groupSlots skip key (length pre) rest groups = Inr groups'
     \<Longrightarrow> groupsOf skip key (pre @ rest) groups'"
proof (induction rest arbitrary: pre groups)
  case Nil
  then show ?case by simp
next
  case (Cons x rest)
  show ?case
  proof (cases "skip x")
    case True
    with Cons.prems have "groupSlots skip key (length (pre @ [x])) rest groups = Inr groups'"
      by simp
    from Cons.IH [OF groupsOf_skip [OF Cons.prems(1) True] this]
    show ?thesis by simp
  next
    case False
    with Cons.prems obtain g1 where
      p: "groupPush groups (key x) (length pre) = Inr g1"
      and r: "groupSlots skip key (length (pre @ [x])) rest g1 = Inr groups'"
      by (auto split: sum.splits)
    from Cons.IH [OF groupsOf_push [OF Cons.prems(1) False p] r]
    show ?thesis by simp
  qed
qed

lemma groupSlots_result:
  assumes "groupSlots skip key 0 sched [] = Inr groups"
  shows "groupsOf skip key sched groups"
  using groupSlots_groupsOf [OF groupsOf_Nil, of skip key sched groups] assms by simp

lemma groupPush_total:
  "key \<notin> set inheritedProperties \<Longrightarrow> \<exists>groups'. groupPush groups key i = Inr groups'"
  by (simp add: groupPush_def split: option.splits)

lemma groupSlots_total:
  "(\<forall>slot\<in>set rest. \<not> skip slot \<longrightarrow> key slot \<notin> set inheritedProperties)
     \<Longrightarrow> \<exists>groups'. groupSlots skip key i rest groups = Inr groups'"
proof (induction rest arbitrary: i groups)
  case Nil
  then show ?case by simp
next
  case (Cons x rest)
  show ?case
  proof (cases "skip x")
    case True
    then show ?thesis using Cons by simp
  next
    case False
    then obtain g1 where "groupPush groups (key x) i = Inr g1"
      using groupPush_total [of "key x" groups i] Cons.prems by auto
    then show ?thesis using False Cons by simp
  qed
qed

text \<open>Facts about a group read off the invariant.\<close>

lemma groupsOf_entry:
  assumes "groupsOf skip key sched groups" "(k, g) \<in> set groups"
  shows "g = groupMembers skip key sched k" "g \<noteq> []"
proof -
  have "distinct (map fst groups)"
    using assms(1) by (simp add: groupsOf_def)
  then have "map_of groups k = Some g"
    using assms(2) by (rule map_of_is_SomeI)
  then show "g = groupMembers skip key sched k" "g \<noteq> []"
    using assms(1) by (auto simp: groupsOf_def split: if_splits)
qed

lemma groupsOf_member:
  assumes "groupsOf skip key sched groups" "i < length sched" "\<not> skip (sched ! i)"
  shows "(key (sched ! i), groupMembers skip key sched (key (sched ! i))) \<in> set groups"
    and "i \<in> set (groupMembers skip key sched (key (sched ! i)))"
proof -
  show i: "i \<in> set (groupMembers skip key sched (key (sched ! i)))"
    using assms by (simp add: groupMembers_def)
  then have "groupMembers skip key sched (key (sched ! i)) \<noteq> []" by auto
  then have "map_of groups (key (sched ! i)) = Some (groupMembers skip key sched (key (sched ! i)))"
    using assms(1) by (simp add: groupsOf_def)
  then show "(key (sched ! i), groupMembers skip key sched (key (sched ! i))) \<in> set groups"
    by (rule map_of_SomeD)
qed

lemma groupMembers_set:
  "set (groupMembers skip key sched k) = {i. i < length sched \<and> \<not> skip (sched ! i) \<and> key (sched ! i) = k}"
  by (auto simp: groupMembers_def)

lemma groupMembers_distinct: "distinct (groupMembers skip key sched k)"
  by (simp add: groupMembers_def)

lemma length_markedIn [simp]: "length (markedIn M sched) = length sched"
  by (simp add: markedIn_def)

lemma nth_markedIn:
  "j < length sched \<Longrightarrow>
     markedIn M sched ! j = (if j \<in> M then (sched ! j)\<lparr>hasScheduleConflict := True\<rparr> else sched ! j)"
  by (simp add: markedIn_def)

lemma markedIn_empty [simp]: "markedIn {} sched = sched"
  by (rule nth_equalityI) (simp_all add: nth_markedIn)

lemma markedIn_markedIn: "markedIn N (markedIn M sched) = markedIn (M \<union> N) sched"
  by (rule nth_equalityI) (simp_all add: nth_markedIn)

lemma markedIn_update:
  "i < length sched \<Longrightarrow> sched[i := (sched ! i)\<lparr>hasScheduleConflict := True\<rparr>] = markedIn {i} sched"
  by (rule nth_equalityI) (auto simp: nth_markedIn nth_list_update)

lemma static_markedIn [simp]: "map staticPart (markedIn M sched) = map staticPart sched"
  by (rule nth_equalityI) (simp_all add: nth_markedIn staticPart_def)

lemma markSlots_eq:
  assumes "\<And>slot. change (slot\<lparr>hasScheduleConflict := True\<rparr>) = change slot"
  shows "\<forall>i\<in>set g. i < length sched \<Longrightarrow>
     markSlots change g sched this =
       (markedIn (set g) sched,
        this\<lparr>suggestedChanges := suggestedChanges this @ map (\<lambda>i. change (sched ! i)) g\<rparr>)"
proof (induction g arbitrary: sched this)
  case Nil
  show ?case by simp
next
  case (Cons i g)
  let ?s1 = "markedIn {i} sched"
  have i: "i < length sched" and g: "\<forall>j\<in>set g. j < length ?s1"
    using Cons.prems by simp_all
  have ch: "map (\<lambda>j. change (?s1 ! j)) g = map (\<lambda>j. change (sched ! j)) g"
    using Cons.prems assms by (intro map_cong) (auto simp: nth_markedIn)
  have "insert i (set g) = {i} \<union> set g" by simp
  then show ?case
    using Cons.IH [OF g] i ch by (simp add: markedIn_update markedIn_markedIn)
qed

lemma reportGroups_eq:
  assumes conflict:
      "\<And>s s' g. map staticPart s = map staticPart s' \<Longrightarrow> g \<noteq> [] \<Longrightarrow> \<forall>i\<in>set g. i < length s
         \<Longrightarrow> conflict s g = conflict s' g"
    and change:
      "\<And>s s' g. map staticPart s = map staticPart s' \<Longrightarrow> g \<noteq> [] \<Longrightarrow> \<forall>i\<in>set g. i < length s
         \<Longrightarrow> change s g = change s' g"
    and change_mark:
      "\<And>s g slot. change s g (slot\<lparr>hasScheduleConflict := True\<rparr>) = change s g slot"
  shows "inRange groups sched \<Longrightarrow>
     reportGroups conflict change groups sched this =
       (markedIn (\<Union>(k, g)\<in>set (bigGroups groups). set g) sched,
        this\<lparr>conflicts := conflicts this @ map (\<lambda>(k, g). conflict sched g) (bigGroups groups),
             suggestedChanges := suggestedChanges this @
               concat (map (\<lambda>(k, g). map (\<lambda>i. change sched g (sched ! i)) g) (bigGroups groups))\<rparr>)"
proof (induction groups arbitrary: sched this)
  case Nil
  show ?case by (simp add: bigGroups_def)
next
  case (Cons kg groups)
  obtain k g where kg: "kg = (k, g)" by (cases kg)
  have rng: "inRange groups sched" and g: "\<forall>i\<in>set g. i < length sched"
    using Cons.prems by (auto simp: inRange_def kg)
  show ?case
  proof (cases "1 < length g")
    case False
    then show ?thesis using Cons.IH [OF rng] by (simp add: kg bigGroups_def)
  next
    case True
    let ?s1 = "markedIn (set g) sched"
    have rng1: "inRange groups ?s1" using rng by (simp add: inRange_def)
    have st: "map staticPart ?s1 = map staticPart sched" by simp
    have c: "map (\<lambda>(k, g). conflict ?s1 g) (bigGroups groups)
        = map (\<lambda>(k, g). conflict sched g) (bigGroups groups)"
    proof (rule map_cong [OF refl])
      fix x assume x: "x \<in> set (bigGroups groups)"
      obtain k' g' where x': "x = (k', g')" by (cases x)
      have "g' \<noteq> []" "\<forall>i\<in>set g'. i < length ?s1"
        using x rng by (auto simp: x' bigGroups_def inRange_def)
      from conflict [OF st this] show "(case x of (k, g) \<Rightarrow> conflict ?s1 g) = (case x of (k, g) \<Rightarrow> conflict sched g)"
        by (simp add: x')
    qed
    have d: "map (\<lambda>(k, g). map (\<lambda>i. change ?s1 g (?s1 ! i)) g) (bigGroups groups)
        = map (\<lambda>(k, g). map (\<lambda>i. change sched g (sched ! i)) g) (bigGroups groups)"
    proof (rule map_cong [OF refl])
      fix x assume x: "x \<in> set (bigGroups groups)"
      obtain k' g' where x': "x = (k', g')" by (cases x)
      have g': "g' \<noteq> []" "\<forall>i\<in>set g'. i < length ?s1"
        using x rng by (auto simp: x' bigGroups_def inRange_def)
      have "map (\<lambda>i. change ?s1 g' (?s1 ! i)) g' = map (\<lambda>i. change sched g' (sched ! i)) g'"
        using g' change [OF st g'] change_mark by (intro map_cong) (auto simp: nth_markedIn)
      then show "(case x of (k, g) \<Rightarrow> map (\<lambda>i. change ?s1 g (?s1 ! i)) g)
          = (case x of (k, g) \<Rightarrow> map (\<lambda>i. change sched g (sched ! i)) g)"
        by (simp add: x')
    qed
    have b: "bigGroups ((k, g) # groups) = (k, g) # bigGroups groups"
      using True by (simp add: bigGroups_def)
    show ?thesis
      using True Cons.IH [OF rng1] markSlots_eq [of "change sched g", OF change_mark g]
      by (simp add: kg b c d markedIn_markedIn Un_commute)
  qed
qed

lemma static_fields:
  assumes "staticPart a = staticPart b"
  shows "id_slot a = id_slot b" "roomName a = roomName b" "dayOfWeek a = dayOfWeek b"
    "time_slot a = time_slot b" "appointmentDate a = appointmentDate b"
    "isOccupied a = isOccupied b" "patientName a = patientName b"
    "professionalName a = professionalName b" "professionalId a = professionalId b"
    "linkedAppointmentId a = linkedAppointmentId b"
  using assms by (cases a; cases b; simp add: staticPart_def)+

lemma static_length: "map staticPart s = map staticPart s' \<Longrightarrow> length s = length s'"
  using map_eq_imp_length_eq by blast

lemma static_nth:
  assumes "map staticPart s = map staticPart s'" "i < length s"
  shows "staticPart (s ! i) = staticPart (s' ! i)"
proof -
  have "length s' = length s" using static_length [OF assms(1)] by simp
  then have "map staticPart s ! i = staticPart (s ! i)" "map staticPart s' ! i = staticPart (s' ! i)"
    using assms(2) by simp_all
  then show ?thesis using assms(1) by simp
qed

lemma static_dayTime: "staticPart a = staticPart b \<Longrightarrow> dayTime a = dayTime b"
  using static_fields(3,4) [of a b] by (simp add: dayTime_def)

lemma static_location: "staticPart a = staticPart b \<Longrightarrow> location a = location b"
  using static_fields(2,3,4) [of a b] by (simp add: location_def)

lemma static_map_field:
  assumes "map staticPart s = map staticPart s'" "\<forall>i\<in>set g. i < length s"
    and "\<And>a b. staticPart a = staticPart b \<Longrightarrow> f a = f b"
  shows "map (\<lambda>i. f (s ! i)) g = map (\<lambda>i. f (s' ! i)) g"
proof (rule map_cong [OF refl])
  fix i assume "i \<in> set g"
  then have "i < length s" using assms(2) by blast
  from assms(3) [OF static_nth [OF assms(1) this]] show "f (s ! i) = f (s' ! i)" .
qed

lemma doubleBookingConflict_static:
  assumes "map staticPart s = map staticPart s'" "g \<noteq> []" "\<forall>i\<in>set g. i < length s"
  shows "doubleBookingConflict s g = doubleBookingConflict s' g"
proof -
  have "g ! 0 < length s" using assms by (simp add: nth_mem)
  then have 0: "staticPart (s ! (g ! 0)) = staticPart (s' ! (g ! 0))"
    using assms(1) by (rule static_nth [rotated])
  have f0: "professionalName (s ! (g ! 0)) = professionalName (s' ! (g ! 0))"
    by (rule static_fields(8) [OF 0])
  have f1: "dayTime (s ! (g ! 0)) = dayTime (s' ! (g ! 0))"
    by (rule static_dayTime [OF 0])
  have m0: "map (\<lambda>i. roomName (s ! i)) g = map (\<lambda>i. roomName (s' ! i)) g"
    by (rule static_map_field [OF assms(1,3)]) (rule static_fields(2))
  have m1: "map (\<lambda>i. id_slot (s ! i)) g = map (\<lambda>i. id_slot (s' ! i)) g"
    by (rule static_map_field [OF assms(1,3)]) (rule static_fields(1))
  show ?thesis
    unfolding doubleBookingConflict_def f0 f1 m0 m1 by (rule refl)
qed

lemma doubleBookingChange_static:
  assumes "map staticPart s = map staticPart s'" "g \<noteq> []" "\<forall>i\<in>set g. i < length s"
  shows "doubleBookingChange s g = doubleBookingChange s' g"
proof -
  have "g ! 0 < length s" using assms by (simp add: nth_mem)
  then have 0: "staticPart (s ! (g ! 0)) = staticPart (s' ! (g ! 0))"
    using assms(1) by (rule static_nth [rotated])
  have f0: "professionalName (s ! (g ! 0)) = professionalName (s' ! (g ! 0))"
    by (rule static_fields(8) [OF 0])
  have f1: "dayTime (s ! (g ! 0)) = dayTime (s' ! (g ! 0))"
    by (rule static_dayTime [OF 0])
  have m0: "map (\<lambda>i. roomName (s ! i)) g = map (\<lambda>i. roomName (s' ! i)) g"
    by (rule static_map_field [OF assms(1,3)]) (rule static_fields(2))
  show ?thesis
    unfolding doubleBookingChange_def f0 f1 m0 by (rule refl)
qed

lemma doubleBookingChange_mark:
  "doubleBookingChange s g (slot\<lparr>hasScheduleConflict := True\<rparr>) = doubleBookingChange s g slot"
  by (simp add: doubleBookingChange_def Let_def)

lemma duplicateRoomConflict_static:
  assumes "map staticPart s = map staticPart s'" "g \<noteq> []" "\<forall>i\<in>set g. i < length s"
  shows "duplicateRoomConflict s g = duplicateRoomConflict s' g"
proof -
  have "g ! 0 < length s" using assms by (simp add: nth_mem)
  then have 0: "staticPart (s ! (g ! 0)) = staticPart (s' ! (g ! 0))"
    using assms(1) by (rule static_nth [rotated])
  have f0: "roomName (s ! (g ! 0)) = roomName (s' ! (g ! 0))"
    by (rule static_fields(2) [OF 0])
  have f1: "dayTime (s ! (g ! 0)) = dayTime (s' ! (g ! 0))"
    by (rule static_dayTime [OF 0])
  have m0: "map (\<lambda>i. patientName (s ! i)) g = map (\<lambda>i. patientName (s' ! i)) g"
    by (rule static_map_field [OF assms(1,3)]) (rule static_fields(7))
  have m1: "map (\<lambda>i. professionalName (s ! i)) g = map (\<lambda>i. professionalName (s' ! i)) g"
    by (rule static_map_field [OF assms(1,3)]) (rule static_fields(8))
  have m2: "map (\<lambda>i. id_slot (s ! i)) g = map (\<lambda>i. id_slot (s' ! i)) g"
    by (rule static_map_field [OF assms(1,3)]) (rule static_fields(1))
  show ?thesis
    unfolding duplicateRoomConflict_def f0 f1 m0 m1 m2 by (rule refl)
qed

lemma duplicateRoomChange_static:
  assumes "map staticPart s = map staticPart s'" "g \<noteq> []" "\<forall>i\<in>set g. i < length s"
  shows "duplicateRoomChange s g = duplicateRoomChange s' g"
proof -
  have "g ! 0 < length s" using assms by (simp add: nth_mem)
  then have 0: "staticPart (s ! (g ! 0)) = staticPart (s' ! (g ! 0))"
    using assms(1) by (rule static_nth [rotated])
  have f0: "roomName (s ! (g ! 0)) = roomName (s' ! (g ! 0))"
    by (rule static_fields(2) [OF 0])
  have f1: "dayTime (s ! (g ! 0)) = dayTime (s' ! (g ! 0))"
    by (rule static_dayTime [OF 0])
  show ?thesis
    unfolding duplicateRoomChange_def f0 f1 by (rule refl)
qed

lemma duplicateRoomChange_mark:
  "duplicateRoomChange s g (slot\<lparr>hasScheduleConflict := True\<rparr>) = duplicateRoomChange s g slot"
  by (simp add: duplicateRoomChange_def Let_def)

lemma reportDoubleBookings_eq:
  assumes "inRange groups sched"
  shows "reportGroups doubleBookingConflict doubleBookingChange groups sched this =
       (markedIn (\<Union>(k, g)\<in>set (bigGroups groups). set g) sched,
        this\<lparr>conflicts := conflicts this
               @ map (\<lambda>(k, g). doubleBookingConflict sched g) (bigGroups groups),
             suggestedChanges := suggestedChanges this @
               concat (map (\<lambda>(k, g). map (\<lambda>i. doubleBookingChange sched g (sched ! i)) g)
                 (bigGroups groups))\<rparr>)"
proof (rule reportGroups_eq)
  show "doubleBookingConflict s g = doubleBookingConflict s' g"
    if "map staticPart s = map staticPart s'" "g \<noteq> []" "\<forall>i\<in>set g. i < length s" for s s' g
    using that by (rule doubleBookingConflict_static)
  show "doubleBookingChange s g = doubleBookingChange s' g"
    if "map staticPart s = map staticPart s'" "g \<noteq> []" "\<forall>i\<in>set g. i < length s" for s s' g
    using that by (rule doubleBookingChange_static)
  show "doubleBookingChange s g (slot\<lparr>hasScheduleConflict := True\<rparr>) = doubleBookingChange s g slot"
    for s g slot by (rule doubleBookingChange_mark)
qed (fact assms)

lemma reportDuplicateRooms_eq:
  assumes "inRange groups sched"
  shows "reportGroups duplicateRoomConflict duplicateRoomChange groups sched this =
       (markedIn (\<Union>(k, g)\<in>set (bigGroups groups). set g) sched,
        this\<lparr>conflicts := conflicts this
               @ map (\<lambda>(k, g). duplicateRoomConflict sched g) (bigGroups groups),
             suggestedChanges := suggestedChanges this @
               concat (map (\<lambda>(k, g). map (\<lambda>i. duplicateRoomChange sched g (sched ! i)) g)
                 (bigGroups groups))\<rparr>)"
proof (rule reportGroups_eq)
  show "duplicateRoomConflict s g = duplicateRoomConflict s' g"
    if "map staticPart s = map staticPart s'" "g \<noteq> []" "\<forall>i\<in>set g. i < length s" for s s' g
    using that by (rule duplicateRoomConflict_static)
  show "duplicateRoomChange s g = duplicateRoomChange s' g"
    if "map staticPart s = map staticPart s'" "g \<noteq> []" "\<forall>i\<in>set g. i < length s" for s s' g
    using that by (rule duplicateRoomChange_static)
  show "duplicateRoomChange s g (slot\<lparr>hasScheduleConflict := True\<rparr>) = duplicateRoomChange s g slot"
    for s g slot by (rule duplicateRoomChange_mark)
qed (fact assms)

lemma forEachSlot_uniform:
  assumes "uniform callback"
  shows "forEachSlot callback sched this =
     (map (slotOf callback) sched,
      this\<lparr>conflicts := conflicts this @ concat (map (conflictsOf callback) sched),
           suggestedChanges := suggestedChanges this @ concat (map (changesOf callback) sched)\<rparr>)"
proof (induction sched arbitrary: this)
  case Nil
  show ?case by simp
next
  case (Cons slot sched)
  have "callback slot this =
        (slotOf callback slot,
         this\<lparr>conflicts := conflicts this @ conflictsOf callback slot,
              suggestedChanges := suggestedChanges this @ changesOf callback slot\<rparr>)"
    using assms by (simp add: uniform_def)
  then show ?case using Cons.IH by simp
qed

lemma uniform_checkExistingAppointment: "uniform (checkExistingAppointment appointments)"
  by (simp add: uniform_def slotOf_def conflictsOf_def changesOf_def emptyAI_def
      checkExistingAppointment_def Let_def)

lemma uniform_checkInactiveProfessional: "uniform (checkInactiveProfessional professionals)"
  by (simp add: uniform_def slotOf_def conflictsOf_def changesOf_def emptyAI_def
      checkInactiveProfessional_def Let_def split: option.splits)

lemma validatePatient_slot:
  "validatePatient rp apts slot this = (slot', this') \<Longrightarrow>
     slot' = slot\<lparr>patientName := patientName slot'\<rparr>"
  by (auto simp: validatePatient_def Let_def split: option.splits if_splits)

lemma validatePatient_this:
  assumes "validatePatient rp apts slot this = (slot', this')"
  shows "conflicts this' = conflicts this" "originalData this' = originalData this"
    "slotIds this' \<subseteq> slotIds this \<union> {id_slot slot}"
  using assms
  by (auto simp: validatePatient_def Let_def slotIds_def split: option.splits if_splits)

lemma validateProfessional_slot:
  "validateProfessional stamp regs profs slot this np = (slot', this', np') \<Longrightarrow>
     slot' = slot\<lparr>professionalName := professionalName slot', professionalId := professionalId slot'\<rparr>"
  by (auto simp: validateProfessional_def Let_def split: option.splits if_splits)

lemma validateProfessional_this:
  assumes "validateProfessional stamp regs profs slot this np = (slot', this', np')"
  shows "conflicts this' = conflicts this" "originalData this' = originalData this"
    "slotIds this' \<subseteq> slotIds this \<union> {id_slot slot}"
  using assms
  by (auto simp: validateProfessional_def Let_def slotIds_def split: option.splits if_splits)

lemma namesErased_patient:
  "slot' = slot\<lparr>patientName := x\<rparr> \<Longrightarrow> namesErased slot' = namesErased slot"
  by (simp add: namesErased_def)

lemma namesErased_professional:
  "slot' = slot\<lparr>professionalName := x, professionalId := y\<rparr> \<Longrightarrow> namesErased slot' = namesErased slot"
  by (simp add: namesErased_def)

lemma occupiedIds_Cons:
  "occupiedIds (slot # rest) = (if isOccupied slot then {id_slot slot} else {}) \<union> occupiedIds rest"
  by (auto simp: occupiedIds_def)

lemma validateSlots_frame:
  "validateSlots stamp rp regs profs apts i slots this np = (slots', this', np') \<Longrightarrow>
     map namesErased slots' = map namesErased slots \<and>
     (\<forall>k<length slots. \<not> isOccupied (slots ! k) \<longrightarrow> slots' ! k = slots ! k) \<and>
     conflicts this' = conflicts this \<and> originalData this' = originalData this \<and>
     slotIds this' \<subseteq> slotIds this \<union> occupiedIds slots"
proof (induction slots arbitrary: i this np slots' this' np')
  case Nil
  then show ?case by simp
next
  case (Cons slot rest)
  show ?case
  proof (cases "isOccupied slot")
    case False
    then obtain rest' where
      r: "validateSlots stamp rp regs profs apts (Suc i) rest this np = (rest', this', np')"
      and s: "slots' = slot # rest'"
      using Cons.prems by (auto split: prod.splits)
    from Cons.IH [OF r] have
      ih: "map namesErased rest' = map namesErased rest"
        "\<forall>k<length rest. \<not> isOccupied (rest ! k) \<longrightarrow> rest' ! k = rest ! k"
        "conflicts this' = conflicts this" "originalData this' = originalData this"
        "slotIds this' \<subseteq> slotIds this \<union> occupiedIds rest"
      by simp_all
    have nth: "\<forall>k<length (slot # rest). \<not> isOccupied ((slot # rest) ! k) \<longrightarrow> slots' ! k = (slot # rest) ! k"
      using ih(2) by (auto simp: s nth_Cons split: nat.splits)
    show ?thesis using ih(1,3,4,5) nth False by (auto simp: s occupiedIds_Cons)
  next
    case True
    obtain slot1 this1 where p: "validatePatient rp apts slot this = (slot1, this1)"
      by (cases "validatePatient rp apts slot this")
    obtain slot2 this2 np2 where
      q: "validateProfessional (stamp i) regs profs slot1 this1 np = (slot2, this2, np2)"
      by (cases "validateProfessional (stamp i) regs profs slot1 this1 np")
    obtain rest' where
      r: "validateSlots stamp rp regs profs apts (Suc i) rest this2 np2 = (rest', this', np')"
      and s: "slots' = slot2 # rest'"
      using Cons.prems True p q by (auto split: prod.splits)
    from Cons.IH [OF r] have
      ih: "map namesErased rest' = map namesErased rest"
        "\<forall>k<length rest. \<not> isOccupied (rest ! k) \<longrightarrow> rest' ! k = rest ! k"
        "conflicts this' = conflicts this2" "originalData this' = originalData this2"
        "slotIds this' \<subseteq> slotIds this2 \<union> occupiedIds rest"
      by simp_all
    have e1: "namesErased slot1 = namesErased slot"
      by (rule namesErased_patient [OF validatePatient_slot [OF p]])
    have e2: "namesErased slot2 = namesErased slot1"
      by (rule namesErased_professional [OF validateProfessional_slot [OF q]])
    have id1: "id_slot slot1 = id_slot slot"
      using arg_cong [OF e1, of id_slot] by (simp add: namesErased_def)
    have ids: "slotIds this2 \<subseteq> slotIds this \<union> {id_slot slot}"
      using validatePatient_this(3) [OF p] validateProfessional_this(3) [OF q] id1 by auto
    have nth: "\<forall>k<length (slot # rest). \<not> isOccupied ((slot # rest) ! k) \<longrightarrow> slots' ! k = (slot # rest) ! k"
      using ih(2) True by (auto simp: s nth_Cons split: nat.splits)
    have c: "conflicts this' = conflicts this" "originalData this' = originalData this"
      using ih(3,4) validatePatient_this(1,2) [OF p] validateProfessional_this(1,2) [OF q] by simp_all
    have "slotIds this' \<subseteq> slotIds this \<union> occupiedIds (slot # rest)"
      using ih(5) ids True by (auto simp: occupiedIds_Cons)
    then show ?thesis using ih(1) e1 e2 nth c by (simp add: s)
  qed
qed

lemma namesErased_fields:
  assumes "namesErased a = namesErased b"
  shows "id_slot a = id_slot b" "roomName a = roomName b" "dayOfWeek a = dayOfWeek b"
    "time_slot a = time_slot b" "appointmentDate a = appointmentDate b"
    "isOccupied a = isOccupied b" "linkedAppointmentId a = linkedAppointmentId b"
    "hasScheduleConflict a = hasScheduleConflict b" "hasValidationError a = hasValidationError b"
  using assms by (cases a; cases b; simp add: namesErased_def)+

lemma namesErased_nth:
  assumes "map namesErased s = map namesErased s'" "i < length s"
  shows "namesErased (s ! i) = namesErased (s' ! i)"
proof -
  have "length s' = length s" using map_eq_imp_length_eq [OF assms(1)] by simp
  then have "map namesErased s ! i = namesErased (s ! i)" "map namesErased s' ! i = namesErased (s' ! i)"
    using assms(2) by simp_all
  then show ?thesis using assms(1) by simp
qed

lemma occupiedIds_cong:
  assumes "length s = length s'"
    and "\<And>i. i < length s \<Longrightarrow> id_slot (s ! i) = id_slot (s' ! i) \<and> isOccupied (s ! i) = isOccupied (s' ! i)"
  shows "occupiedIds s = occupiedIds s'"
proof -
  have m: "map (\<lambda>x. (id_slot x, isOccupied x)) s = map (\<lambda>x. (id_slot x, isOccupied x)) s'"
    using assms by (intro nth_equalityI) simp_all
  have "occupiedIds a = fst ` {p \<in> set (map (\<lambda>x. (id_slot x, isOccupied x)) a). snd p}" for a
    by (force simp: occupiedIds_def)
  then have "occupiedIds s = fst ` {p \<in> set (map (\<lambda>x. (id_slot x, isOccupied x)) s). snd p}"
    and "occupiedIds s' = fst ` {p \<in> set (map (\<lambda>x. (id_slot x, isOccupied x)) s'). snd p}"
    by blast+
  then show ?thesis unfolding m by (rule trans [OF _ sym])
qed

lemma namesErased_occupiedIds:
  assumes "map namesErased s = map namesErased s'"
  shows "occupiedIds s = occupiedIds s'"
proof (rule occupiedIds_cong)
  show "length s = length s'" using map_eq_imp_length_eq [OF assms] .
  fix i assume "i < length s"
  from namesErased_fields(1,6) [OF namesErased_nth [OF assms this]]
  show "id_slot (s ! i) = id_slot (s' ! i) \<and> isOccupied (s ! i) = isOccupied (s' ! i)" by simp
qed

lemma static_occupiedIds:
  assumes "map staticPart s = map staticPart s'"
  shows "occupiedIds s = occupiedIds s'"
proof (rule occupiedIds_cong)
  show "length s = length s'" using map_eq_imp_length_eq [OF assms] .
  fix i assume "i < length s"
  from static_fields(1,6) [OF static_nth [OF assms this]]
  show "id_slot (s ! i) = id_slot (s' ! i) \<and> isOccupied (s ! i) = isOccupied (s' ! i)" by simp
qed

lemma groupsOf_inRange: "groupsOf skip key sched groups \<Longrightarrow> inRange groups sched"
  unfolding inRange_def
proof (intro ballI, clarify)
  fix k g i assume inv: "groupsOf skip key sched groups" and kg: "(k, g) \<in> set groups" and i: "i \<in> set g"
  from groupsOf_entry(1) [OF inv kg] i show "i < length sched"
    by (simp add: groupMembers_set)
qed

lemma slotsByProfDayTime_groupsOf:
  "slotsByProfDayTime sched = Inr groups \<Longrightarrow> groupsOf skipProf profDayTimeKey sched groups"
  unfolding slotsByProfDayTime_def skipProf_def [abs_def] by (rule groupSlots_result)

lemma slotsByRoomDayTime_groupsOf:
  "slotsByRoomDayTime sched = Inr groups \<Longrightarrow> groupsOf skipRoom roomDayTimeKey sched groups"
  unfolding slotsByRoomDayTime_def skipRoom_def [abs_def] by (rule groupSlots_result)

lemma detectScheduleConflicts_Inr:
  assumes "detectScheduleConflicts this data profs apts = Inr (this', data')"
  obtains groups where
    "slotsByProfDayTime (schedule data) = Inr groups"
    "groupsOf skipProf profDayTimeKey (schedule data) groups"
    "data' = data\<lparr>schedule := map (slotOf (checkExistingAppointment apts))
                (markedIn (markedSet groups) (schedule data))\<rparr>"
    "this' = this\<lparr>conflicts := conflicts this
                @ map (\<lambda>(k, g). doubleBookingConflict (schedule data) g) (bigGroups groups)
                @ concat (map (conflictsOf (checkExistingAppointment apts))
                    (markedIn (markedSet groups) (schedule data))),
              suggestedChanges := suggestedChanges this
                @ concat (map (\<lambda>(k, g). map (\<lambda>i. doubleBookingChange (schedule data) g (schedule data ! i)) g)
                    (bigGroups groups))
                @ concat (map (changesOf (checkExistingAppointment apts))
                    (markedIn (markedSet groups) (schedule data)))\<rparr>"
proof -
  from assms obtain groups where g: "slotsByProfDayTime (schedule data) = Inr groups"
    by (auto simp: detectScheduleConflicts_def split: sum.splits)
  have inv: "groupsOf skipProf profDayTimeKey (schedule data) groups"
    by (rule slotsByProfDayTime_groupsOf [OF g])
  have rng: "inRange groups (schedule data)" by (rule groupsOf_inRange [OF inv])
  show ?thesis
    using assms
    by (intro that [OF g inv])
       (simp_all add: detectScheduleConflicts_def g reportDoubleBookings_eq [OF rng]
          forEachSlot_uniform [OF uniform_checkExistingAppointment] markedSet_def)
qed

lemma detectDuplicateRoomsOrTimes_Inr:
  assumes "detectDuplicateRoomsOrTimes this data = Inr (this', data')"
  obtains groups where
    "slotsByRoomDayTime (schedule data) = Inr groups"
    "groupsOf skipRoom roomDayTimeKey (schedule data) groups"
    "data' = data\<lparr>schedule := markedIn (markedSet groups) (schedule data)\<rparr>"
    "this' = this\<lparr>conflicts := conflicts this
                @ map (\<lambda>(k, g). duplicateRoomConflict (schedule data) g) (bigGroups groups),
              suggestedChanges := suggestedChanges this
                @ concat (map (\<lambda>(k, g). map (\<lambda>i. duplicateRoomChange (schedule data) g (schedule data ! i)) g)
                    (bigGroups groups))\<rparr>"
proof -
  from assms obtain groups where g: "slotsByRoomDayTime (schedule data) = Inr groups"
    by (auto simp: detectDuplicateRoomsOrTimes_def split: sum.splits)
  have inv: "groupsOf skipRoom roomDayTimeKey (schedule data) groups"
    by (rule slotsByRoomDayTime_groupsOf [OF g])
  have rng: "inRange groups (schedule data)" by (rule groupsOf_inRange [OF inv])
  show ?thesis
    using assms
    by (intro that [OF g inv])
       (simp_all add: detectDuplicateRoomsOrTimes_def g reportDuplicateRooms_eq [OF rng] markedSet_def)
qed

lemma checkInactiveProfessionals_eq:
  "checkInactiveProfessionals this data profs =
     (this\<lparr>conflicts := conflicts this
              @ concat (map (conflictsOf (checkInactiveProfessional profs)) (schedule data)),
           suggestedChanges := suggestedChanges this
              @ concat (map (changesOf (checkInactiveProfessional profs)) (schedule data))\<rparr>,
      data\<lparr>schedule := map (slotOf (checkInactiveProfessional profs)) (schedule data)\<rparr>)"
  by (simp add: checkInactiveProfessionals_def forEachSlot_uniform [OF uniform_checkInactiveProfessional])

lemma validateNames_frame:
  assumes "validateNames stamp this data profs apts = (this1, data1)"
  shows "map namesErased (schedule data1) = map namesErased (schedule data)"
    "\<forall>k<length (schedule data). \<not> isOccupied (schedule data ! k) \<longrightarrow> schedule data1 ! k = schedule data ! k"
    "conflicts this1 = conflicts this" "originalData this1 = originalData this"
    "slotIds this1 \<subseteq> slotIds this \<union> occupiedIds (schedule data)"
    "updatedAppointments data1 = updatedAppointments data"
proof -
  let ?rp = "uniqueInOrder (map (\<lambda>apt. trim (toLowerCase (client apt))) apts)"
  let ?regs = "map (\<lambda>prof. trim (toLowerCase (name_prof prof))) profs"
  obtain s' t' n' where
    v: "validateSlots stamp ?rp ?regs profs apts 0 (schedule data) this (newProfessionals data) = (s', t', n')"
    by (cases "validateSlots stamp ?rp ?regs profs apts 0 (schedule data) this (newProfessionals data)")
  have eq: "this1 = t'" "data1 = data\<lparr>schedule := s', newProfessionals := n'\<rparr>"
    using assms v by (simp_all add: validateNames_def Let_def)
  from validateSlots_frame [OF v]
  show "map namesErased (schedule data1) = map namesErased (schedule data)"
    "\<forall>k<length (schedule data). \<not> isOccupied (schedule data ! k) \<longrightarrow> schedule data1 ! k = schedule data ! k"
    "conflicts this1 = conflicts this" "originalData this1 = originalData this"
    "slotIds this1 \<subseteq> slotIds this \<union> occupiedIds (schedule data)"
    "updatedAppointments data1 = updatedAppointments data"
    by (simp_all add: eq)
qed

text \<open>The callback for existing appointments, slot by slot.\<close>

lemma slotOf_existing:
  "slotOf (checkExistingAppointment apts) slot =
     (if isOccupied slot \<and> truthy (professionalId slot) \<and> conflictingAppointments apts slot \<noteq> []
      then slot\<lparr>hasScheduleConflict := True\<rparr> else slot)"
  by (simp add: slotOf_def checkExistingAppointment_def Let_def)

lemma conflictsOf_existing:
  "conflictsOf (checkExistingAppointment apts) slot =
     (if isOccupied slot \<and> truthy (professionalId slot) \<and> conflictingAppointments apts slot \<noteq> []
      then [ConflitoComAgendamentoExistente (professionalName slot) (patientName slot)
              (roomName slot) (dayTime slot)
              (map (\<lambda>apt. \<lparr>id_ref = id_apt apt, client_ref = client apt, type_ref = type_apt apt\<rparr>)
                 (conflictingAppointments apts slot))
              (id_slot slot)]
      else [])"
  by (simp add: conflictsOf_def checkExistingAppointment_def Let_def emptyAI_def)

lemma changesOf_existing_ids:
  "r \<in> set (changesOf (checkExistingAppointment apts) slot) \<Longrightarrow> isOccupied slot \<and> slotId_cr r = id_slot slot"
  by (auto simp: changesOf_def checkExistingAppointment_def Let_def emptyAI_def split: if_splits)

lemma slotOf_inactive:
  "slotOf (checkInactiveProfessional profs) slot =
     (if inactiveProfessional profs slot \<noteq> None then slot\<lparr>hasValidationError := True\<rparr> else slot)"
  by (simp add: slotOf_def checkInactiveProfessional_def inactiveProfessional_def split: option.splits)

lemma conflictsOf_inactive:
  "conflictsOf (checkInactiveProfessional profs) slot =
     (case inactiveProfessional profs slot of
        None \<Rightarrow> []
      | Some p \<Rightarrow> [ProfissionalInativo (name_prof p) (patientName slot) (roomName slot)
                     (dayTime slot) (id_slot slot)])"
  by (simp add: conflictsOf_def checkInactiveProfessional_def inactiveProfessional_def emptyAI_def
      split: option.splits)

lemma changesOf_inactive_ids:
  "r \<in> set (changesOf (checkInactiveProfessional profs) slot) \<Longrightarrow> isOccupied slot \<and> slotId_cr r = id_slot slot"
  by (auto simp: changesOf_def checkInactiveProfessional_def emptyAI_def split: if_splits option.splits)

lemma static_slotOf_existing [simp]:
  "staticPart (slotOf (checkExistingAppointment apts) slot) = staticPart slot"
  by (simp add: slotOf_existing staticPart_def)

lemma static_slotOf_inactive [simp]:
  "staticPart (slotOf (checkInactiveProfessional profs) slot) = staticPart slot"
  by (simp add: slotOf_inactive staticPart_def)

lemma static_map_existing [simp]:
  "map staticPart (map (slotOf (checkExistingAppointment apts)) s) = map staticPart s"
  by simp

lemma static_map_inactive [simp]:
  "map staticPart (map (slotOf (checkInactiveProfessional profs)) s) = map staticPart s"
  by simp

text \<open>The run, step by step.\<close>

lemma runStepsD:
  assumes "runSteps stamp this data profs apts ai out this1 data1 groupsP groupsR s2 s3 s4"
  shows "validateNames stamp
       (this\<lparr>originalData := Some data, suggestedChanges := [], conflicts := [],
             validationErrors := [], autoCorrections := []\<rparr>) data profs apts = (this1, data1)"
    "groupsOf skipProf profDayTimeKey (schedule data1) groupsP"
    "s2 = markedIn (markedSet groupsP) (schedule data1)"
    "s3 = map (slotOf (checkExistingAppointment apts)) s2"
    "groupsOf skipRoom roomDayTimeKey s3 groupsR"
    "s4 = markedIn (markedSet groupsR) s3"
    "schedule out = map (slotOf (checkInactiveProfessional profs)) s4"
    "newProfessionals out = newProfessionals data1"
    "conflicts ai =
       map (\<lambda>(k, g). doubleBookingConflict (schedule data1) g) (bigGroups groupsP)
       @ concat (map (conflictsOf (checkExistingAppointment apts)) s2)
       @ map (\<lambda>(k, g). duplicateRoomConflict s3 g) (bigGroups groupsR)
       @ concat (map (conflictsOf (checkInactiveProfessional profs)) s4)"
    "suggestedChanges ai =
       suggestedChanges this1
       @ concat (map (\<lambda>(k, g). map (\<lambda>i. doubleBookingChange (schedule data1) g (schedule data1 ! i)) g)
           (bigGroups groupsP))
       @ concat (map (changesOf (checkExistingAppointment apts)) s2)
       @ concat (map (\<lambda>(k, g). map (\<lambda>i. duplicateRoomChange s3 g (s3 ! i)) g) (bigGroups groupsR))
       @ concat (map (changesOf (checkInactiveProfessional profs)) s4)"
    "validationErrors ai = validationErrors this1"
    "autoCorrections ai = autoCorrections this1"
  using assms unfolding runSteps_def by blast+

lemma processImportedData_runSteps:
  assumes "processImportedData stamp this data profs apts = Inr (ai, out)"
  shows "\<exists>this1 data1 groupsP groupsR s2 s3 s4.
           runSteps stamp this data profs apts ai out this1 data1 groupsP groupsR s2 s3 s4"
proof -
  let ?init = "this\<lparr>originalData := Some data, suggestedChanges := [], conflicts := [],
             validationErrors := [], autoCorrections := []\<rparr>"
  obtain this1 data1 where v: "validateNames stamp ?init data profs apts = (this1, data1)"
    by (cases "validateNames stamp ?init data profs apts")
  from assms v obtain this2 data2 where
    d: "detectScheduleConflicts this1 data1 profs apts = Inr (this2, data2)"
    by (auto simp: processImportedData_def Let_def split: sum.splits)
  from assms v d obtain this3 data3 where
    r: "detectDuplicateRoomsOrTimes this2 data2 = Inr (this3, data3)"
    by (auto simp: processImportedData_def Let_def split: sum.splits)
  from assms v d r have
    c: "checkInactiveProfessionals this3 data3 profs = (ai, out)"
    by (simp add: processImportedData_def Let_def)
  have c1: "conflicts this1 = []"
    using validateNames_frame(3) [OF v] by simp
  from d obtain groupsP where
    gP: "groupsOf skipProf profDayTimeKey (schedule data1) groupsP"
    and d2: "data2 = data1\<lparr>schedule := map (slotOf (checkExistingAppointment apts))
                (markedIn (markedSet groupsP) (schedule data1))\<rparr>"
    and t2: "this2 = this1\<lparr>conflicts := conflicts this1
                @ map (\<lambda>(k, g). doubleBookingConflict (schedule data1) g) (bigGroups groupsP)
                @ concat (map (conflictsOf (checkExistingAppointment apts))
                    (markedIn (markedSet groupsP) (schedule data1))),
              suggestedChanges := suggestedChanges this1
                @ concat (map (\<lambda>(k, g). map (\<lambda>i. doubleBookingChange (schedule data1) g (schedule data1 ! i)) g)
                    (bigGroups groupsP))
                @ concat (map (changesOf (checkExistingAppointment apts))
                    (markedIn (markedSet groupsP) (schedule data1)))\<rparr>"
    by (rule detectScheduleConflicts_Inr)
  from r obtain groupsR where
    gR: "groupsOf skipRoom roomDayTimeKey (schedule data2) groupsR"
    and d3: "data3 = data2\<lparr>schedule := markedIn (markedSet groupsR) (schedule data2)\<rparr>"
    and t3: "this3 = this2\<lparr>conflicts := conflicts this2
                @ map (\<lambda>(k, g). duplicateRoomConflict (schedule data2) g) (bigGroups groupsR),
              suggestedChanges := suggestedChanges this2
                @ concat (map (\<lambda>(k, g). map (\<lambda>i. duplicateRoomChange (schedule data2) g (schedule data2 ! i)) g)
                    (bigGroups groupsR))\<rparr>"
    by (rule detectDuplicateRoomsOrTimes_Inr)
  let ?s2 = "markedIn (markedSet groupsP) (schedule data1)"
  let ?s3 = "map (slotOf (checkExistingAppointment apts)) ?s2"
  let ?s4 = "markedIn (markedSet groupsR) ?s3"
  have s3: "schedule data2 = ?s3" by (simp add: d2)
  have fin: "ai = fst (checkInactiveProfessionals this3 data3 profs)"
      "out = snd (checkInactiveProfessionals this3 data3 profs)"
    using c by simp_all
  have "runSteps stamp this data profs apts ai out this1 data1 groupsP groupsR ?s2 ?s3 ?s4"
    unfolding runSteps_def
  proof (intro conjI)
    show "validateNames stamp ?init data profs apts = (this1, data1)" by (rule v)
    show "groupsOf skipProf profDayTimeKey (schedule data1) groupsP" by (rule gP)
    show "?s2 = markedIn (markedSet groupsP) (schedule data1)" by (rule refl)
    show "?s3 = map (slotOf (checkExistingAppointment apts)) ?s2" by (rule refl)
    show "groupsOf skipRoom roomDayTimeKey ?s3 groupsR" using gR by (simp add: s3)
    show "?s4 = markedIn (markedSet groupsR) ?s3" by (rule refl)
    show "schedule out = map (slotOf (checkInactiveProfessional profs)) ?s4"
      by (simp add: fin checkInactiveProfessionals_eq d3 d2)
    show "newProfessionals out = newProfessionals data1"
      by (simp add: fin checkInactiveProfessionals_eq d3 d2)
    show "conflicts ai =
       map (\<lambda>(k, g). doubleBookingConflict (schedule data1) g) (bigGroups groupsP)
       @ concat (map (conflictsOf (checkExistingAppointment apts)) ?s2)
       @ map (\<lambda>(k, g). duplicateRoomConflict ?s3 g) (bigGroups groupsR)
       @ concat (map (conflictsOf (checkInactiveProfessional profs)) ?s4)"
      by (simp add: fin checkInactiveProfessionals_eq d3 t3 d2 t2 c1)
    show "suggestedChanges ai =
       suggestedChanges this1
       @ concat (map (\<lambda>(k, g). map (\<lambda>i. doubleBookingChange (schedule data1) g (schedule data1 ! i)) g)
           (bigGroups groupsP))
       @ concat (map (changesOf (checkExistingAppointment apts)) ?s2)
       @ concat (map (\<lambda>(k, g). map (\<lambda>i. duplicateRoomChange ?s3 g (?s3 ! i)) g) (bigGroups groupsR))
       @ concat (map (changesOf (checkInactiveProfessional profs)) ?s4)"
      by (simp add: fin checkInactiveProfessionals_eq d3 t3 d2 t2)
    show "validationErrors ai = validationErrors this1"
      by (simp add: fin checkInactiveProfessionals_eq d3 t3 d2 t2)
    show "autoCorrections ai = autoCorrections this1"
      by (simp add: fin checkInactiveProfessionals_eq d3 t3 d2 t2)
  qed
  then show ?thesis by blast
qed

lemma inactiveProfessional_static:
  "staticPart a = staticPart b \<Longrightarrow> inactiveProfessional profs a = inactiveProfessional profs b"
  using static_fields(6,9) [of a b] by (simp add: inactiveProfessional_def)

lemma not_inactive_doubleBooking: "\<not> isProfissionalInativo (doubleBookingConflict s g)"
  by (simp add: doubleBookingConflict_def Let_def)

lemma not_inactive_duplicateRoom: "\<not> isProfissionalInativo (duplicateRoomConflict s g)"
  by (simp add: duplicateRoomConflict_def Let_def)

lemma filter_inactive_groups:
  "filter isProfissionalInativo (map (\<lambda>(k, g). doubleBookingConflict s g) groups) = []"
  "filter isProfissionalInativo (map (\<lambda>(k, g). duplicateRoomConflict s g) groups) = []"
  by (auto simp: filter_empty_conv not_inactive_doubleBooking not_inactive_duplicateRoom)

lemma filter_inactive_existing:
  "filter isProfissionalInativo (concat (map (conflictsOf (checkExistingAppointment apts)) s)) = []"
  by (auto simp: filter_empty_conv conflictsOf_existing split: if_splits)

lemma filter_inactive_inactive:
  "filter isProfissionalInativo (concat (map (conflictsOf (checkInactiveProfessional profs)) s))
     = concat (map (conflictsOf (checkInactiveProfessional profs)) s)"
  by (auto simp: filter_id_conv conflictsOf_inactive split: option.splits)

lemma conflictsOf_inactive_slotOf:
  "(case inactiveProfessional profs (slotOf (checkInactiveProfessional profs) slot) of
      None \<Rightarrow> []
    | Some p \<Rightarrow> [ProfissionalInativo (name_prof p)
                   (patientName (slotOf (checkInactiveProfessional profs) slot))
                   (roomName (slotOf (checkInactiveProfessional profs) slot))
                   (dayTime (slotOf (checkInactiveProfessional profs) slot))
                   (id_slot (slotOf (checkInactiveProfessional profs) slot))])
   = conflictsOf (checkInactiveProfessional profs) slot"
proof -
  have st: "staticPart (slotOf (checkInactiveProfessional profs) slot) = staticPart slot" by simp
  show ?thesis
    unfolding conflictsOf_inactive inactiveProfessional_static [OF st]
      static_fields(1,2,7) [OF st] static_dayTime [OF st]
    by (rule refl)
qed

lemma inactive_pass_flags:
  "map hasScheduleConflict (schedule (snd (checkInactiveProfessionals this' data' profs)))
     = map hasScheduleConflict (schedule data')"
  by (simp add: checkInactiveProfessionals_eq slotOf_inactive)

lemma inactive_run:
  assumes "processImportedData stamp this data profs apts = Inr (ai, out)"
  shows "filter isProfissionalInativo (conflicts ai) =
           concat (map (\<lambda>slot. case inactiveProfessional profs slot of
                                 None \<Rightarrow> []
                               | Some p \<Rightarrow> [ProfissionalInativo (name_prof p) (patientName slot)
                                              (roomName slot) (dayTime slot) (id_slot slot)])
                     (schedule out))"
    and "\<forall>slot\<in>set (schedule out). inactiveProfessional profs slot \<noteq> None \<longrightarrow> hasValidationError slot"
proof -
  from processImportedData_runSteps [OF assms] obtain this1 data1 groupsP groupsR s2 s3 s4 where
    rs: "runSteps stamp this data profs apts ai out this1 data1 groupsP groupsR s2 s3 s4"
    by blast
  note out = runStepsD(7) [OF rs] and c = runStepsD(9) [OF rs]
  have "filter isProfissionalInativo (conflicts ai)
      = concat (map (conflictsOf (checkInactiveProfessional profs)) s4)"
    unfolding c filter_append filter_inactive_groups filter_inactive_existing
      filter_inactive_inactive by simp
  also have "\<dots> = concat (map (\<lambda>slot. case inactiveProfessional profs slot of
                                 None \<Rightarrow> []
                               | Some p \<Rightarrow> [ProfissionalInativo (name_prof p) (patientName slot)
                                              (roomName slot) (dayTime slot) (id_slot slot)])
                     (schedule out))"
    unfolding out map_map comp_def conflictsOf_inactive_slotOf by (rule refl)
  finally show "filter isProfissionalInativo (conflicts ai) =
           concat (map (\<lambda>slot. case inactiveProfessional profs slot of
                                 None \<Rightarrow> []
                               | Some p \<Rightarrow> [ProfissionalInativo (name_prof p) (patientName slot)
                                              (roomName slot) (dayTime slot) (id_slot slot)])
                     (schedule out))" .
  show "\<forall>slot\<in>set (schedule out). inactiveProfessional profs slot \<noteq> None \<longrightarrow> hasValidationError slot"
  proof (intro ballI impI)
    fix slot assume "slot \<in> set (schedule out)" and i: "inactiveProfessional profs slot \<noteq> None"
    then obtain s where s: "slot = slotOf (checkInactiveProfessional profs) s"
      by (auto simp: out)
    have "inactiveProfessional profs slot = inactiveProfessional profs s"
      unfolding s by (rule inactiveProfessional_static) simp
    with i have "inactiveProfessional profs s \<noteq> None" by simp
    then show "hasValidationError slot" unfolding s by (simp add: slotOf_inactive)
  qed
qed

lemma runSteps_static:
  assumes "runSteps stamp this data profs apts ai out this1 data1 groupsP groupsR s2 s3 s4"
  shows "map staticPart s2 = map staticPart (schedule data1)"
    "map staticPart s3 = map staticPart (schedule data1)"
    "map staticPart s4 = map staticPart (schedule data1)"
    "map staticPart (schedule out) = map staticPart (schedule data1)"
proof -
  note s = runStepsD(3,4,6,7) [OF assms]
  show 2: "map staticPart s2 = map staticPart (schedule data1)" by (simp add: s(1))
  show 3: "map staticPart s3 = map staticPart (schedule data1)"
    unfolding s(2) static_map_existing by (rule 2)
  show 4: "map staticPart s4 = map staticPart (schedule data1)"
    unfolding s(3) static_markedIn by (rule 3)
  show "map staticPart (schedule out) = map staticPart (schedule data1)"
    unfolding s(4) static_map_inactive by (rule 4)
qed

lemma runSteps_length:
  assumes "runSteps stamp this data profs apts ai out this1 data1 groupsP groupsR s2 s3 s4"
  shows "length s2 = length (schedule data1)" "length s3 = length (schedule data1)"
    "length s4 = length (schedule data1)" "length (schedule out) = length (schedule data1)"
    "length (schedule data1) = length (schedule data)"
  using runSteps_static [OF assms, THEN static_length]
    map_eq_imp_length_eq [OF validateNames_frame(1) [OF runStepsD(1) [OF assms]]]
  by simp_all

lemma flag_slotOf_existing:
  "hasScheduleConflict slot \<Longrightarrow> hasScheduleConflict (slotOf (checkExistingAppointment apts) slot)"
  by (simp add: slotOf_existing)

lemma flag_slotOf_inactive:
  "hasScheduleConflict (slotOf (checkInactiveProfessional profs) slot) = hasScheduleConflict slot"
  by (simp add: slotOf_inactive)

lemma flag_markedIn:
  "i < length s \<Longrightarrow> hasScheduleConflict (markedIn M s ! i) \<longleftrightarrow> i \<in> M \<or> hasScheduleConflict (s ! i)"
  by (simp add: nth_markedIn)

lemma runSteps_markedP:
  assumes rs: "runSteps stamp this data profs apts ai out this1 data1 groupsP groupsR s2 s3 s4"
    and i: "i < length (schedule data1)" "i \<in> markedSet groupsP"
  shows "hasScheduleConflict (schedule out ! i)"
proof -
  note s = runStepsD(3,4,6,7) [OF rs] and l = runSteps_length [OF rs]
  have "hasScheduleConflict (s2 ! i)" using i by (simp add: s(1) flag_markedIn)
  then have "hasScheduleConflict (s3 ! i)"
    using i l(1) by (simp add: s(2) flag_slotOf_existing)
  then have "hasScheduleConflict (s4 ! i)"
    using i l(2) by (simp add: s(3) flag_markedIn)
  then show ?thesis using i l(3) by (simp add: s(4) flag_slotOf_inactive)
qed

lemma runSteps_markedR:
  assumes rs: "runSteps stamp this data profs apts ai out this1 data1 groupsP groupsR s2 s3 s4"
    and i: "i < length (schedule data1)" "i \<in> markedSet groupsR"
  shows "hasScheduleConflict (schedule out ! i)"
proof -
  note s = runStepsD(3,4,6,7) [OF rs] and l = runSteps_length [OF rs]
  have "hasScheduleConflict (s4 ! i)"
    using i l(2) by (simp add: s(3) flag_markedIn)
  then show ?thesis using i l(3) by (simp add: s(4) flag_slotOf_inactive)
qed

lemma two_members_big:
  assumes "distinct g" "i \<in> set g" "j \<in> set g" "i \<noteq> j"
  shows "1 < length g"
proof -
  have "{i, j} \<subseteq> set g" using assms by simp
  then have "card {i, j} \<le> card (set g)" by (intro card_mono) simp_all
  then show ?thesis using assms(1,4) by (simp add: distinct_card)
qed

lemma skipProf_static: "staticPart a = staticPart b \<Longrightarrow> skipProf a = skipProf b"
  using static_fields(6,9) [of a b] by (simp add: skipProf_def)

lemma skipRoom_static: "staticPart a = staticPart b \<Longrightarrow> skipRoom a = skipRoom b"
  using static_fields(6) [of a b] by (simp add: skipRoom_def)

lemma profDayTimeKey_static: "staticPart a = staticPart b \<Longrightarrow> profDayTimeKey a = profDayTimeKey b"
  using static_fields(4,5,9) [of a b] by (simp add: profDayTimeKey_def)

lemma roomDayTimeKey_static: "staticPart a = staticPart b \<Longrightarrow> roomDayTimeKey a = roomDayTimeKey b"
  using static_fields(2,3,4) [of a b] by (simp add: roomDayTimeKey_def)

lemma bigGroups_member:
  "(k, g) \<in> set (bigGroups groups) \<longleftrightarrow> (k, g) \<in> set groups \<and> 1 < length g"
  by (auto simp: bigGroups_def)

lemma markedSet_member:
  "(k, g) \<in> set groups \<Longrightarrow> 1 < length g \<Longrightarrow> i \<in> set g \<Longrightarrow> i \<in> markedSet groups"
  by (force simp: markedSet_def bigGroups_member)

lemma doubleBooking_run:
  assumes run: "processImportedData stamp this data profs apts = Inr (ai, out)"
    and ij: "i < length (schedule out)" "j < length (schedule out)" "i \<noteq> j"
    and oi: "isOccupied (schedule out ! i)" "truthy (professionalId (schedule out ! i))"
    and oj: "isOccupied (schedule out ! j)"
    and agree: "professionalId (schedule out ! j) = professionalId (schedule out ! i)"
      "appointmentDate (schedule out ! j) = appointmentDate (schedule out ! i)"
      "time_slot (schedule out ! j) = time_slot (schedule out ! i)"
  shows "\<exists>pn rooms dt ids.
           ProfissionalEmMultiplasSalas pn rooms dt ids \<in> set (conflicts ai) \<and>
           (\<forall>k<length (schedule out).
              isOccupied (schedule out ! k)
              \<and> professionalId (schedule out ! k) = professionalId (schedule out ! i)
              \<and> appointmentDate (schedule out ! k) = appointmentDate (schedule out ! i)
              \<and> time_slot (schedule out ! k) = time_slot (schedule out ! i)
              \<longrightarrow> id_slot (schedule out ! k) \<in> set ids \<and> hasScheduleConflict (schedule out ! k))"
proof -
  from processImportedData_runSteps [OF run] obtain this1 data1 groupsP groupsR s2 s3 s4 where
    rs: "runSteps stamp this data profs apts ai out this1 data1 groupsP groupsR s2 s3 s4"
    by blast
  let ?s1 = "schedule data1"
  let ?key = "profDayTimeKey (?s1 ! i)"
  let ?g = "groupMembers skipProf profDayTimeKey ?s1 ?key"
  note gP = runStepsD(2) [OF rs] and c = runStepsD(9) [OF rs]
  note st = runSteps_static(4) [OF rs] and len = runSteps_length(4) [OF rs]
  have stk: "staticPart (schedule out ! k) = staticPart (?s1 ! k)" if "k < length (schedule out)" for k
    by (rule static_nth [OF st that])
  have member: "k \<in> set ?g"
    if k: "k < length (schedule out)" and ok: "isOccupied (schedule out ! k)"
      and ak: "professionalId (schedule out ! k) = professionalId (schedule out ! i)"
        "appointmentDate (schedule out ! k) = appointmentDate (schedule out ! i)"
        "time_slot (schedule out ! k) = time_slot (schedule out ! i)" for k
  proof -
    have "\<not> skipProf (schedule out ! k)" using ok ak(1) oi(2) by (simp add: skipProf_def)
    then have sk: "\<not> skipProf (?s1 ! k)" using skipProf_static [OF stk [OF k]] by simp
    have "profDayTimeKey (schedule out ! k) = profDayTimeKey (schedule out ! i)"
      using ak by (simp add: profDayTimeKey_def)
    then have "profDayTimeKey (?s1 ! k) = ?key"
      using profDayTimeKey_static [OF stk [OF k]] profDayTimeKey_static [OF stk [OF ij(1)]] by simp
    with sk k len show ?thesis by (simp add: groupMembers_set)
  qed
  have i: "i \<in> set ?g" using member [OF ij(1) oi(1)] by simp
  have j: "j \<in> set ?g" using member [OF ij(2) oj agree] .
  have big: "1 < length ?g"
    by (rule two_members_big [OF groupMembers_distinct i j ij(3)])
  have "\<not> skipProf (?s1 ! i)" using i by (simp add: groupMembers_set)
  then have ing: "(?key, ?g) \<in> set groupsP"
    using groupsOf_member(1) [OF gP, of i] ij(1) len by simp
  then have "doubleBookingConflict ?s1 ?g \<in> set (conflicts ai)"
    using big unfolding c by (force simp: bigGroups_member)
  then have conf: "ProfissionalEmMultiplasSalas (professionalName (?s1 ! (?g ! 0)))
       (join '', '' (map (\<lambda>i. roomName (?s1 ! i)) ?g)) (dayTime (?s1 ! (?g ! 0)))
       (map (\<lambda>i. id_slot (?s1 ! i)) ?g) \<in> set (conflicts ai)"
    by (simp add: doubleBookingConflict_def Let_def)
  have each: "id_slot (schedule out ! k) \<in> set (map (\<lambda>i. id_slot (?s1 ! i)) ?g)
        \<and> hasScheduleConflict (schedule out ! k)"
    if k: "k < length (schedule out)" and ok: "isOccupied (schedule out ! k)"
      and ak: "professionalId (schedule out ! k) = professionalId (schedule out ! i)"
        "appointmentDate (schedule out ! k) = appointmentDate (schedule out ! i)"
        "time_slot (schedule out ! k) = time_slot (schedule out ! i)" for k
  proof -
    have kg: "k \<in> set ?g" by (rule member [OF k ok ak])
    have "id_slot (schedule out ! k) = id_slot (?s1 ! k)"
      by (rule static_fields(1) [OF stk [OF k]])
    then have 1: "id_slot (schedule out ! k) \<in> set (map (\<lambda>i. id_slot (?s1 ! i)) ?g)"
      using kg by auto
    have "k \<in> markedSet groupsP" by (rule markedSet_member [OF ing big kg])
    then have 2: "hasScheduleConflict (schedule out ! k)"
      using runSteps_markedP [OF rs] k len by simp
    from 1 2 show ?thesis by simp
  qed
  from conf each show ?thesis by blast
qed

lemma split_first:
  "u \<notin> set p \<Longrightarrow> u \<notin> set p' \<Longrightarrow> p @ u # r = p' @ u # r' \<longleftrightarrow> p = p' \<and> r = r'"
proof (induction p arbitrary: p')
  case Nil
  then show ?case by (cases p') auto
next
  case (Cons x p)
  then show ?case by (cases p') auto
qed

lemma split_last:
  assumes "u \<notin> set t" "u \<notin> set t'"
  shows "a @ u # t = a' @ u # t' \<longleftrightarrow> a = a' \<and> t = t'"
proof -
  have "a @ u # t = a' @ u # t' \<longleftrightarrow> rev (a @ u # t) = rev (a' @ u # t')"
    by (simp only: rev_is_rev_conv)
  also have "\<dots> \<longleftrightarrow> rev t @ u # rev a = rev t' @ u # rev a'" by simp
  also have "\<dots> \<longleftrightarrow> rev t = rev t' \<and> rev a = rev a'"
    using assms by (intro split_first) simp_all
  finally show ?thesis by auto
qed

lemma key3_inj:
  assumes "u \<notin> set b" "u \<notin> set c" "u \<notin> set b'" "u \<notin> set c'"
  shows "a @ u # b @ u # c = a' @ u # b' @ u # c' \<longleftrightarrow> a = a' \<and> b = b' \<and> c = c'"
proof -
  have "a @ u # b @ u # c = a' @ u # b' @ u # c'
      \<longleftrightarrow> (a @ u # b) @ u # c = (a' @ u # b') @ u # c'" by simp
  also have "\<dots> \<longleftrightarrow> a @ u # b = a' @ u # b' \<and> c = c'"
    by (rule split_last [OF assms(2,4)])
  also have "a @ u # b = a' @ u # b' \<longleftrightarrow> a = a' \<and> b = b'"
    by (rule split_last [OF assms(1,3)])
  finally show ?thesis by auto
qed

lemma truthy_str_inj: "truthy x \<Longrightarrow> truthy y \<Longrightarrow> str x = str y \<Longrightarrow> x = y"
  by (cases x; cases y) simp_all

lemma profDayTimeKey_inj:
  assumes "underscoreFree a" "underscoreFree b" "\<not> skipProf a" "\<not> skipProf b"
    and "profDayTimeKey a = profDayTimeKey b"
  shows "professionalId a = professionalId b \<and> appointmentDate a = appointmentDate b
           \<and> time_slot a = time_slot b"
proof -
  have "str (professionalId a) = str (professionalId b) \<and> appointmentDate a = appointmentDate b
      \<and> time_slot a = time_slot b"
    using assms(1,2,5)
      key3_inj [of "CHR ''_''" "appointmentDate a" "time_slot a" "appointmentDate b" "time_slot b"
        "str (professionalId a)" "str (professionalId b)"]
    by (simp add: profDayTimeKey_def underscoreFree_def)
  then show ?thesis using assms(3,4) truthy_str_inj by (auto simp: skipProf_def)
qed

lemma roomDayTimeKey_inj:
  assumes "underscoreFree a" "underscoreFree b" "roomDayTimeKey a = roomDayTimeKey b"
  shows "roomName a = roomName b \<and> dayOfWeek a = dayOfWeek b \<and> time_slot a = time_slot b"
  using assms
    key3_inj [of "CHR ''_''" "dayOfWeek a" "time_slot a" "dayOfWeek b" "time_slot b"
      "roomName a" "roomName b"]
  by (simp add: roomDayTimeKey_def underscoreFree_def)

lemma underscoreFree_static: "staticPart a = staticPart b \<Longrightarrow> underscoreFree a = underscoreFree b"
  using static_fields(3,4,5) [of a b] by (simp add: underscoreFree_def)

lemma underscoreFree_namesErased:
  "namesErased a = namesErased b \<Longrightarrow> underscoreFree a = underscoreFree b"
  using namesErased_fields(3,4,5) [of a b] by (simp add: underscoreFree_def)

text \<open>Members of one group agree on the fields of the key.\<close>

lemma prof_group_agrees:
  assumes g: "slotsByProfDayTime sched = Inr groups" and u: "\<forall>slot\<in>set sched. underscoreFree slot"
    and kg: "(k, g) \<in> set groups" and i: "i \<in> set g" and j: "j \<in> set g"
  shows "professionalId (sched ! i) = professionalId (sched ! j)
       \<and> appointmentDate (sched ! i) = appointmentDate (sched ! j)
       \<and> time_slot (sched ! i) = time_slot (sched ! j)"
proof -
  have inv: "groupsOf skipProf profDayTimeKey sched groups"
    by (rule slotsByProfDayTime_groupsOf [OF g])
  have mem: "g = groupMembers skipProf profDayTimeKey sched k"
    by (rule groupsOf_entry(1) [OF inv kg])
  have pi: "i < length sched" "\<not> skipProf (sched ! i)" "profDayTimeKey (sched ! i) = k"
    using i by (simp_all add: mem groupMembers_set)
  have pj: "j < length sched" "\<not> skipProf (sched ! j)" "profDayTimeKey (sched ! j) = k"
    using j by (simp_all add: mem groupMembers_set)
  show ?thesis
    using profDayTimeKey_inj [of "sched ! i" "sched ! j"] u pi pj by simp
qed

lemma room_group_agrees:
  assumes g: "slotsByRoomDayTime sched = Inr groups" and u: "\<forall>slot\<in>set sched. underscoreFree slot"
    and kg: "(k, g) \<in> set groups" and i: "i \<in> set g" and j: "j \<in> set g"
  shows "roomName (sched ! i) = roomName (sched ! j)
       \<and> dayOfWeek (sched ! i) = dayOfWeek (sched ! j)
       \<and> time_slot (sched ! i) = time_slot (sched ! j)"
proof -
  have inv: "groupsOf skipRoom roomDayTimeKey sched groups"
    by (rule slotsByRoomDayTime_groupsOf [OF g])
  have mem: "g = groupMembers skipRoom roomDayTimeKey sched k"
    by (rule groupsOf_entry(1) [OF inv kg])
  have pi: "i < length sched" "roomDayTimeKey (sched ! i) = k"
    using i by (simp_all add: mem groupMembers_set)
  have pj: "j < length sched" "roomDayTimeKey (sched ! j) = k"
    using j by (simp_all add: mem groupMembers_set)
  show ?thesis
    using roomDayTimeKey_inj [of "sched ! i" "sched ! j"] u pi pj by simp
qed

lemma doubleBookingConflict_form:
  "doubleBookingConflict s g =
     ProfissionalEmMultiplasSalas (professionalName (s ! (g ! 0)))
       (join '', '' (map (\<lambda>i. roomName (s ! i)) g)) (dayTime (s ! (g ! 0)))
       (map (\<lambda>i. id_slot (s ! i)) g)"
  by (simp add: doubleBookingConflict_def Let_def)

lemma duplicateRoomConflict_form:
  "duplicateRoomConflict s g =
     SalaComMultiplosAgendamentos (roomName (s ! (g ! 0))) (dayTime (s ! (g ! 0)))
       (join '', '' (map str (filter truthy (map (\<lambda>i. patientName (s ! i)) g))))
       (join '', '' (map str (filter truthy (map (\<lambda>i. professionalName (s ! i)) g))))
       (map (\<lambda>i. id_slot (s ! i)) g)"
  by (simp add: duplicateRoomConflict_def Let_def)

text \<open>Where a conflict of a run comes from, by its kind.\<close>

lemma runSteps_doubleBooking_origin:
  assumes rs: "runSteps stamp this data profs apts ai out this1 data1 groupsP groupsR s2 s3 s4"
    and c: "ProfissionalEmMultiplasSalas pn rooms dt ids \<in> set (conflicts ai)"
  shows "\<exists>k g. (k, g) \<in> set groupsP \<and> 1 < length g
           \<and> ids = map (\<lambda>i. id_slot (schedule data1 ! i)) g"
proof -
  let ?c = "ProfissionalEmMultiplasSalas pn rooms dt ids"
  have 2: "?c \<notin> set (concat (map (conflictsOf (checkExistingAppointment apts)) s2))"
    by (auto simp: conflictsOf_existing split: if_splits)
  have 3: "?c \<notin> set (map (\<lambda>(k, g). duplicateRoomConflict s3 g) (bigGroups groupsR))"
    by (auto simp: duplicateRoomConflict_form)
  have 4: "?c \<notin> set (concat (map (conflictsOf (checkInactiveProfessional profs)) s4))"
    by (auto simp: conflictsOf_inactive split: option.splits)
  from c 2 3 4 have
    "?c \<in> set (map (\<lambda>(k, g). doubleBookingConflict (schedule data1) g) (bigGroups groupsP))"
    unfolding runStepsD(9) [OF rs] by simp
  then obtain k g where "(k, g) \<in> set (bigGroups groupsP)"
    "?c = doubleBookingConflict (schedule data1) g" by auto
  then have "(k, g) \<in> set groupsP \<and> 1 < length g
      \<and> ids = map (\<lambda>i. id_slot (schedule data1 ! i)) g"
    by (simp add: doubleBookingConflict_form bigGroups_member)
  then show ?thesis by blast
qed

lemma runSteps_duplicateRoom_origin:
  assumes rs: "runSteps stamp this data profs apts ai out this1 data1 groupsP groupsR s2 s3 s4"
    and c: "SalaComMultiplosAgendamentos room dt pats prs ids \<in> set (conflicts ai)"
  shows "\<exists>k g. (k, g) \<in> set groupsR \<and> 1 < length g \<and> ids = map (\<lambda>i. id_slot (s3 ! i)) g"
proof -
  let ?c = "SalaComMultiplosAgendamentos room dt pats prs ids"
  have 1: "?c \<notin> set (map (\<lambda>(k, g). doubleBookingConflict (schedule data1) g) (bigGroups groupsP))"
    by (auto simp: doubleBookingConflict_form)
  have 2: "?c \<notin> set (concat (map (conflictsOf (checkExistingAppointment apts)) s2))"
    by (auto simp: conflictsOf_existing split: if_splits)
  have 4: "?c \<notin> set (concat (map (conflictsOf (checkInactiveProfessional profs)) s4))"
    by (auto simp: conflictsOf_inactive split: option.splits)
  from c 1 2 4 have
    "?c \<in> set (map (\<lambda>(k, g). duplicateRoomConflict s3 g) (bigGroups groupsR))"
    unfolding runStepsD(9) [OF rs] by simp
  then obtain k g where "(k, g) \<in> set (bigGroups groupsR)"
    "?c = duplicateRoomConflict s3 g" by auto
  then have "(k, g) \<in> set groupsR \<and> 1 < length g \<and> ids = map (\<lambda>i. id_slot (s3 ! i)) g"
    by (simp add: duplicateRoomConflict_form bigGroups_member)
  then show ?thesis by blast
qed

lemma runSteps_existing_origin:
  assumes rs: "runSteps stamp this data profs apts ai out this1 data1 groupsP groupsR s2 s3 s4"
    and c: "ConflitoComAgendamentoExistente pn pat room dt refs sid \<in> set (conflicts ai)"
  shows "\<exists>j<length s2. id_slot (s2 ! j) = sid
           \<and> conflictsOf (checkExistingAppointment apts) (s2 ! j) \<noteq> []"
proof -
  let ?c = "ConflitoComAgendamentoExistente pn pat room dt refs sid"
  have 1: "?c \<notin> set (map (\<lambda>(k, g). doubleBookingConflict (schedule data1) g) (bigGroups groupsP))"
    by (auto simp: doubleBookingConflict_form)
  have 3: "?c \<notin> set (map (\<lambda>(k, g). duplicateRoomConflict s3 g) (bigGroups groupsR))"
    by (auto simp: duplicateRoomConflict_form)
  have 4: "?c \<notin> set (concat (map (conflictsOf (checkInactiveProfessional profs)) s4))"
    by (auto simp: conflictsOf_inactive split: option.splits)
  from c 1 3 4 have "?c \<in> set (concat (map (conflictsOf (checkExistingAppointment apts)) s2))"
    unfolding runStepsD(9) [OF rs] by simp
  then obtain x where x: "x \<in> set s2" "?c \<in> set (conflictsOf (checkExistingAppointment apts) x)"
    by auto
  then have "id_slot x = sid" by (auto simp: conflictsOf_existing split: if_splits)
  moreover from x(1) obtain j where "j < length s2" "s2 ! j = x" by (auto simp: in_set_conv_nth)
  ultimately show ?thesis using x(2) by auto
qed

lemma runSteps_underscoreFree:
  assumes rs: "runSteps stamp this data profs apts ai out this1 data1 groupsP groupsR s2 s3 s4"
    and u: "\<forall>slot\<in>set (schedule data). underscoreFree slot" and i: "i < length (schedule data1)"
  shows "underscoreFree (schedule data1 ! i)" "underscoreFree (s3 ! i)"
proof -
  note ne = validateNames_frame(1) [OF runStepsD(1) [OF rs]]
  have len: "length (schedule data1) = length (schedule data)" by (rule runSteps_length(5) [OF rs])
  have "underscoreFree (schedule data ! i)" using u i len by simp
  then show 1: "underscoreFree (schedule data1 ! i)"
    using underscoreFree_namesErased [OF namesErased_nth [OF ne i]] by simp
  have "i < length s3" using i runSteps_length(2) [OF rs] by simp
  from static_nth [OF runSteps_static(2) [OF rs] this] 1
  show "underscoreFree (s3 ! i)" using underscoreFree_static by blast
qed

lemma conflict_groups_run:
  assumes run: "processImportedData stamp this data profs apts = Inr (ai, out)"
    and u: "\<forall>slot\<in>set (schedule data). underscoreFree slot"
  shows "ProfissionalEmMultiplasSalas pn rooms dt ids \<in> set (conflicts ai) \<Longrightarrow>
           \<exists>g. 1 < length g \<and> distinct g \<and> ids = map (\<lambda>i. id_slot (schedule out ! i)) g
             \<and> (\<forall>i\<in>set g. i < length (schedule out))
             \<and> (\<forall>i\<in>set g. \<forall>j\<in>set g.
                   professionalId (schedule out ! i) = professionalId (schedule out ! j)
                   \<and> appointmentDate (schedule out ! i) = appointmentDate (schedule out ! j)
                   \<and> time_slot (schedule out ! i) = time_slot (schedule out ! j))"
    and "SalaComMultiplosAgendamentos room dt' pats prs ids' \<in> set (conflicts ai) \<Longrightarrow>
           \<exists>g. 1 < length g \<and> distinct g \<and> ids' = map (\<lambda>i. id_slot (schedule out ! i)) g
             \<and> (\<forall>i\<in>set g. i < length (schedule out))
             \<and> (\<forall>i\<in>set g. \<forall>j\<in>set g.
                   roomName (schedule out ! i) = roomName (schedule out ! j)
                   \<and> dayOfWeek (schedule out ! i) = dayOfWeek (schedule out ! j)
                   \<and> time_slot (schedule out ! i) = time_slot (schedule out ! j))"
proof -
  from processImportedData_runSteps [OF run] obtain this1 data1 groupsP groupsR s2 s3 s4 where
    rs: "runSteps stamp this data profs apts ai out this1 data1 groupsP groupsR s2 s3 s4"
    by blast
  note len = runSteps_length [OF rs]
  {
    assume "ProfissionalEmMultiplasSalas pn rooms dt ids \<in> set (conflicts ai)"
    from runSteps_doubleBooking_origin [OF rs this] obtain k g where
      kg: "(k, g) \<in> set groupsP" "1 < length g"
      and ids: "ids = map (\<lambda>i. id_slot (schedule data1 ! i)) g" by blast
    let ?s1 = "schedule data1"
    note inv = runStepsD(2) [OF rs]
    have mem: "g = groupMembers skipProf profDayTimeKey ?s1 k"
      by (rule groupsOf_entry(1) [OF inv kg(1)])
    have d: "distinct g" unfolding mem by (rule groupMembers_distinct)
    have p: "i < length ?s1 \<and> \<not> skipProf (?s1 ! i) \<and> profDayTimeKey (?s1 ! i) = k"
      if "i \<in> set g" for i using that by (simp add: mem groupMembers_set)
    have st: "staticPart (schedule out ! i) = staticPart (?s1 ! i)" if "i \<in> set g" for i
      using static_nth [OF runSteps_static(4) [OF rs], of i] p [OF that] len(4) by simp
    have ids': "ids = map (\<lambda>i. id_slot (schedule out ! i)) g"
      unfolding ids using static_fields(1) [OF st] by (intro map_cong) simp_all
    have rng: "\<forall>i\<in>set g. i < length (schedule out)" using p len(4) by simp
    have agree: "professionalId (schedule out ! i) = professionalId (schedule out ! j)
           \<and> appointmentDate (schedule out ! i) = appointmentDate (schedule out ! j)
           \<and> time_slot (schedule out ! i) = time_slot (schedule out ! j)"
      if i: "i \<in> set g" and j: "j \<in> set g" for i j
    proof -
      have "professionalId (?s1 ! i) = professionalId (?s1 ! j)
           \<and> appointmentDate (?s1 ! i) = appointmentDate (?s1 ! j)
           \<and> time_slot (?s1 ! i) = time_slot (?s1 ! j)"
        using profDayTimeKey_inj [of "?s1 ! i" "?s1 ! j"] p [OF i] p [OF j]
          runSteps_underscoreFree(1) [OF rs u] by simp
      then show ?thesis
        using static_fields(4,5,9) [OF st [OF i]] static_fields(4,5,9) [OF st [OF j]] by simp
    qed
    from kg(2) d ids' rng agree
    show "\<exists>g. 1 < length g \<and> distinct g \<and> ids = map (\<lambda>i. id_slot (schedule out ! i)) g
             \<and> (\<forall>i\<in>set g. i < length (schedule out))
             \<and> (\<forall>i\<in>set g. \<forall>j\<in>set g.
                   professionalId (schedule out ! i) = professionalId (schedule out ! j)
                   \<and> appointmentDate (schedule out ! i) = appointmentDate (schedule out ! j)
                   \<and> time_slot (schedule out ! i) = time_slot (schedule out ! j))"
      by blast
  }
  {
    assume "SalaComMultiplosAgendamentos room dt' pats prs ids' \<in> set (conflicts ai)"
    from runSteps_duplicateRoom_origin [OF rs this] obtain k g where
      kg: "(k, g) \<in> set groupsR" "1 < length g"
      and ids: "ids' = map (\<lambda>i. id_slot (s3 ! i)) g" by blast
    note inv = runStepsD(5) [OF rs]
    have mem: "g = groupMembers skipRoom roomDayTimeKey s3 k"
      by (rule groupsOf_entry(1) [OF inv kg(1)])
    have d: "distinct g" unfolding mem by (rule groupMembers_distinct)
    have p: "i < length s3 \<and> roomDayTimeKey (s3 ! i) = k"
      if "i \<in> set g" for i using that by (simp add: mem groupMembers_set)
    have "map staticPart (schedule out) = map staticPart s3"
      using runSteps_static(2,4) [OF rs] by simp
    then have st: "staticPart (schedule out ! i) = staticPart (s3 ! i)" if "i \<in> set g" for i
      using static_nth [of "schedule out" s3 i] p [OF that] len(2,4) by simp
    have ids'': "ids' = map (\<lambda>i. id_slot (schedule out ! i)) g"
      unfolding ids using static_fields(1) [OF st] by (intro map_cong) simp_all
    have rng: "\<forall>i\<in>set g. i < length (schedule out)" using p len(2,4) by simp
    have agree: "roomName (schedule out ! i) = roomName (schedule out ! j)
           \<and> dayOfWeek (schedule out ! i) = dayOfWeek (schedule out ! j)
           \<and> time_slot (schedule out ! i) = time_slot (schedule out ! j)"
      if i: "i \<in> set g" and j: "j \<in> set g" for i j
    proof -
      have "roomName (s3 ! i) = roomName (s3 ! j) \<and> dayOfWeek (s3 ! i) = dayOfWeek (s3 ! j)
           \<and> time_slot (s3 ! i) = time_slot (s3 ! j)"
        using roomDayTimeKey_inj [of "s3 ! i" "s3 ! j"] p [OF i] p [OF j]
          runSteps_underscoreFree(2) [OF rs u] len(2) by simp
      then show ?thesis
        using static_fields(2,3,4) [OF st [OF i]] static_fields(2,3,4) [OF st [OF j]] by simp
    qed
    from kg(2) d ids'' rng agree
    show "\<exists>g. 1 < length g \<and> distinct g \<and> ids' = map (\<lambda>i. id_slot (schedule out ! i)) g
             \<and> (\<forall>i\<in>set g. i < length (schedule out))
             \<and> (\<forall>i\<in>set g. \<forall>j\<in>set g.
                   roomName (schedule out ! i) = roomName (schedule out ! j)
                   \<and> dayOfWeek (schedule out ! i) = dayOfWeek (schedule out ! j)
                   \<and> time_slot (schedule out ! i) = time_slot (schedule out ! j))"
      by blast
  }
qed

lemma linked_conflictingAppointments:
  assumes "professionalId slot = Some p" "linkedAppointmentId slot = Some l" "l \<noteq> []"
    and only: "filter (\<lambda>apt. professionalId_apt apt = p \<and> date apt = appointmentDate slot
                          \<and> time_apt apt = time_slot slot) apts = [a]"
    and a: "id_apt a = l"
  shows "conflictingAppointments apts slot = []"
proof -
  have "conflictingAppointments apts slot
      = filter (\<lambda>apt. id_apt apt \<noteq> l)
          (filter (\<lambda>apt. professionalId_apt apt = p \<and> date apt = appointmentDate slot
                          \<and> time_apt apt = time_slot slot) apts)"
    using assms(1,2,3) by (simp add: conflictingAppointments_def conj_ac)
  then show ?thesis unfolding only using a by simp
qed

lemma conflictingAppointments_static:
  "staticPart s = staticPart slot \<Longrightarrow> conflictingAppointments apts s = conflictingAppointments apts slot"
  using static_fields(4,5,9,10) [of s slot] by (simp add: conflictingAppointments_def)

lemma checkExistingAppointment_noop:
  "conflictingAppointments apts s = [] \<Longrightarrow> checkExistingAppointment apts s this' = (s, this')"
  by (simp add: checkExistingAppointment_def)

lemma linked_run:
  assumes run: "processImportedData stamp this data profs apts = Inr (ai, out)"
    and i: "i < length (schedule out)"
    and slot: "professionalId (schedule out ! i) = Some p"
      "linkedAppointmentId (schedule out ! i) = Some l" "l \<noteq> []"
    and only: "filter (\<lambda>apt. professionalId_apt apt = p \<and> date apt = appointmentDate (schedule out ! i)
                          \<and> time_apt apt = time_slot (schedule out ! i)) apts = [a]"
    and a: "id_apt a = l"
    and unique: "\<forall>j<length (schedule out). j \<noteq> i \<longrightarrow> id_slot (schedule out ! j) \<noteq> id_slot (schedule out ! i)"
  shows "ConflitoComAgendamentoExistente pn pat room dt refs (id_slot (schedule out ! i))
           \<notin> set (conflicts ai)"
proof
  assume c: "ConflitoComAgendamentoExistente pn pat room dt refs (id_slot (schedule out ! i))
           \<in> set (conflicts ai)"
  from processImportedData_runSteps [OF run] obtain this1 data1 groupsP groupsR s2 s3 s4 where
    rs: "runSteps stamp this data profs apts ai out this1 data1 groupsP groupsR s2 s3 s4"
    by blast
  from runSteps_existing_origin [OF rs c] obtain j where
    j: "j < length s2" "id_slot (s2 ! j) = id_slot (schedule out ! i)"
      "conflictsOf (checkExistingAppointment apts) (s2 ! j) \<noteq> []" by blast
  have st: "map staticPart (schedule out) = map staticPart s2"
    using runSteps_static(1,4) [OF rs] by simp
  have len: "length (schedule out) = length s2" by (rule static_length [OF st])
  have stj: "staticPart (schedule out ! j) = staticPart (s2 ! j)"
    using static_nth [OF st] j(1) len by simp
  have "id_slot (schedule out ! j) = id_slot (schedule out ! i)"
    using static_fields(1) [OF stj] j(2) by simp
  then have "j = i" using unique j(1) len by auto
  then have "conflictingAppointments apts (s2 ! j) = conflictingAppointments apts (schedule out ! i)"
    using conflictingAppointments_static [OF stj [symmetric]] by simp
  also have "\<dots> = []" by (rule linked_conflictingAppointments [OF slot only a])
  finally show False using j(3) by (simp add: conflictsOf_existing)
qed

text \<open>Slots that are not occupied.\<close>

lemma occupiedIds_nth: "i < length s \<Longrightarrow> isOccupied (s ! i) \<Longrightarrow> id_slot (s ! i) \<in> occupiedIds s"
  by (auto simp: occupiedIds_def)

lemma markedSet_elem:
  assumes "groupsOf skip key s groups" "i \<in> markedSet groups"
  shows "i < length s \<and> \<not> skip (s ! i)"
proof -
  from assms(2) obtain k g where kg: "(k, g) \<in> set groups" "i \<in> set g"
    by (auto simp: markedSet_def bigGroups_member)
  from groupsOf_entry(1) [OF assms(1) kg(1)] kg(2) show ?thesis
    by (simp add: groupMembers_set)
qed

lemma unoccupied_unchanged:
  assumes rs: "runSteps stamp this data profs apts ai out this1 data1 groupsP groupsR s2 s3 s4"
    and i: "i < length (schedule data)" "\<not> isOccupied (schedule data ! i)"
  shows "schedule out ! i = schedule data ! i"
proof -
  note len = runSteps_length [OF rs] and s = runStepsD(3,4,6,7) [OF rs]
  have 1: "schedule data1 ! i = schedule data ! i"
    using validateNames_frame(2) [OF runStepsD(1) [OF rs]] i by simp
  have "i \<notin> markedSet groupsP"
    using markedSet_elem [OF runStepsD(2) [OF rs], of i] i(2) 1 by (auto simp: skipProf_def)
  then have 2: "s2 ! i = schedule data ! i"
    using i len 1 by (simp add: s(1) nth_markedIn)
  have 3: "s3 ! i = schedule data ! i"
    using i len 2 by (simp add: s(2) slotOf_existing)
  have "i \<notin> markedSet groupsR"
    using markedSet_elem [OF runStepsD(5) [OF rs], of i] i(2) 3 by (auto simp: skipRoom_def)
  then have 4: "s4 ! i = schedule data ! i"
    using i len 3 by (simp add: s(3) nth_markedIn)
  show ?thesis
    using i len 4 by (simp add: s(4) slotOf_inactive inactiveProfessional_def)
qed

lemma group_ids_occupied:
  assumes inv: "groupsOf skip key s groups" and occ: "\<And>x. \<not> skip x \<Longrightarrow> isOccupied x"
    and kg: "(k, g) \<in> set groups" and i: "i \<in> set g"
  shows "id_slot (s ! i) \<in> occupiedIds s"
proof -
  from groupsOf_entry(1) [OF inv kg] i have "i < length s" "\<not> skip (s ! i)"
    by (simp_all add: groupMembers_set)
  then show ?thesis using occ by (intro occupiedIds_nth) simp_all
qed

lemma runSteps_slotIds:
  assumes rs: "runSteps stamp this data profs apts ai out this1 data1 groupsP groupsR s2 s3 s4"
  shows "slotIds ai \<subseteq> occupiedIds (schedule data)"
proof -
  let ?O = "occupiedIds (schedule data)"
  note v = runStepsD(1) [OF rs]
  have O1: "occupiedIds (schedule data1) = ?O"
    by (rule namesErased_occupiedIds [OF validateNames_frame(1) [OF v]])
  have O2: "occupiedIds s2 = ?O" using static_occupiedIds [OF runSteps_static(1) [OF rs]] O1 by simp
  have O3: "occupiedIds s3 = ?O" using static_occupiedIds [OF runSteps_static(2) [OF rs]] O1 by simp
  have O4: "occupiedIds s4 = ?O" using static_occupiedIds [OF runSteps_static(3) [OF rs]] O1 by simp
  have "slotIds this1 \<subseteq> ?O"
    using validateNames_frame(5) [OF v] by (simp add: slotIds_def)
  then have t1: "slotId_cr ` set (suggestedChanges this1) \<subseteq> ?O"
    "slotId_ve ` set (validationErrors this1) \<subseteq> ?O" "slotId_ac ` set (autoCorrections this1) \<subseteq> ?O"
    by (auto simp: slotIds_def)
  have gP: "id_slot (schedule data1 ! i) \<in> ?O" if "(k, g) \<in> set (bigGroups groupsP)" "i \<in> set g" for k g i
    using group_ids_occupied [OF runStepsD(2) [OF rs], of k g i] that O1
    by (auto simp: skipProf_def bigGroups_member)
  have gR: "id_slot (s3 ! i) \<in> ?O" if "(k, g) \<in> set (bigGroups groupsR)" "i \<in> set g" for k g i
    using group_ids_occupied [OF runStepsD(5) [OF rs], of k g i] that O3
    by (auto simp: skipRoom_def bigGroups_member)
  have e: "id_slot x \<in> occupiedIds s" if "x \<in> set s" "isOccupied x" for x s
    using that by (auto simp: occupiedIds_def)
  have cr: "slotId_cr ` set (suggestedChanges ai) \<subseteq> ?O"
  proof
    fix sid assume "sid \<in> slotId_cr ` set (suggestedChanges ai)"
    then obtain r where r: "r \<in> set (suggestedChanges ai)" "sid = slotId_cr r" by auto
    from r(1) consider
        "r \<in> set (suggestedChanges this1)"
      | k g i where "(k, g) \<in> set (bigGroups groupsP)" "i \<in> set g"
          "r = doubleBookingChange (schedule data1) g (schedule data1 ! i)"
      | x where "x \<in> set s2" "r \<in> set (changesOf (checkExistingAppointment apts) x)"
      | k g i where "(k, g) \<in> set (bigGroups groupsR)" "i \<in> set g"
          "r = duplicateRoomChange s3 g (s3 ! i)"
      | x where "x \<in> set s4" "r \<in> set (changesOf (checkInactiveProfessional profs) x)"
      unfolding runStepsD(10) [OF rs] by auto
    then show "sid \<in> ?O"
    proof cases
      case 1
      then show ?thesis using t1(1) r(2) by auto
    next
      case 2
      then show ?thesis using gP r(2) by (simp add: doubleBookingChange_def Let_def)
    next
      case 3
      then show ?thesis using changesOf_existing_ids [of r apts x] e [of x s2] O2 r(2) by simp
    next
      case 4
      then show ?thesis using gR r(2) by (simp add: duplicateRoomChange_def Let_def)
    next
      case 5
      then show ?thesis using changesOf_inactive_ids [of r profs x] e [of x s4] O4 r(2) by simp
    qed
  qed
  have cf: "(\<Union>c\<in>set (conflicts ai). conflictSlotIds c) \<subseteq> ?O"
  proof
    fix sid assume "sid \<in> (\<Union>c\<in>set (conflicts ai). conflictSlotIds c)"
    then obtain c where c: "c \<in> set (conflicts ai)" "sid \<in> conflictSlotIds c" by auto
    from c(1) consider
        k g where "(k, g) \<in> set (bigGroups groupsP)" "c = doubleBookingConflict (schedule data1) g"
      | x where "x \<in> set s2" "c \<in> set (conflictsOf (checkExistingAppointment apts) x)"
      | k g where "(k, g) \<in> set (bigGroups groupsR)" "c = duplicateRoomConflict s3 g"
      | x where "x \<in> set s4" "c \<in> set (conflictsOf (checkInactiveProfessional profs) x)"
      unfolding runStepsD(9) [OF rs] by auto
    then show "sid \<in> ?O"
    proof cases
      case 1
      then show ?thesis using gP c(2) by (auto simp: doubleBookingConflict_form)
    next
      case 2
      then show ?thesis using e [of x s2] O2 c(2)
        by (auto simp: conflictsOf_existing split: if_splits)
    next
      case 3
      then show ?thesis using gR c(2) by (auto simp: duplicateRoomConflict_form)
    next
      case 4
      then show ?thesis using e [of x s4] O4 c(2)
        by (auto simp: conflictsOf_inactive inactiveProfessional_def split: option.splits if_splits)
    qed
  qed
  show ?thesis
    unfolding slotIds_def runStepsD(11,12) [OF rs] using cr cf t1(2,3) by blast
qed

lemma unoccupied_run:
  assumes run: "processImportedData stamp this data profs apts = Inr (ai, out)"
    and i: "i < length (schedule data)" "\<not> isOccupied (schedule data ! i)"
    and unique: "\<forall>j<length (schedule data). isOccupied (schedule data ! j)
                   \<longrightarrow> id_slot (schedule data ! j) \<noteq> id_slot (schedule data ! i)"
  shows "schedule out ! i = schedule data ! i" "id_slot (schedule data ! i) \<notin> slotIds ai"
proof -
  from processImportedData_runSteps [OF run] obtain this1 data1 groupsP groupsR s2 s3 s4 where
    rs: "runSteps stamp this data profs apts ai out this1 data1 groupsP groupsR s2 s3 s4"
    by blast
  show "schedule out ! i = schedule data ! i" by (rule unoccupied_unchanged [OF rs i])
  have "id_slot (schedule data ! i) \<notin> occupiedIds (schedule data)"
    using unique by (auto simp: occupiedIds_def in_set_conv_nth)
  then show "id_slot (schedule data ! i) \<notin> slotIds ai"
    using runSteps_slotIds [OF rs] by blast
qed

lemma list_ex_profsNamed:
  "list_ex (\<lambda>p. trim (toLowerCase (name_prof p)) = n) newProfs \<longleftrightarrow> profsNamed n newProfs \<noteq> []"
  by (auto simp: profsNamed_def list_ex_iff filter_empty_conv)

lemma profsNamed_snoc:
  "profsNamed n (newProfs @ [newProfessional stamp pname]) =
     profsNamed n newProfs @ (if trim (toLowerCase pname) = n then [newProfessional stamp pname] else [])"
  by (simp add: profsNamed_def newProfessional_def)

lemma validateProfessional_known:
  assumes "profsNamed n np \<noteq> []"
    and "validateProfessional stamp regs profs slot this np = (slot', this', np')"
  shows "profsNamed n np' = profsNamed n np"
    and "namedLike n slot \<Longrightarrow> n \<notin> set regs \<Longrightarrow> slot' = slot"
proof -
  show "profsNamed n np' = profsNamed n np"
    using assms
    by (auto simp: validateProfessional_def Let_def list_ex_profsNamed profsNamed_snoc
        split: option.splits if_splits)
  show "slot' = slot" if "namedLike n slot" "n \<notin> set regs"
    using assms that
    by (auto simp: validateProfessional_def Let_def list_ex_profsNamed namedLike_def
        split: option.splits if_splits)
qed

lemma validateProfessional_creates:
  assumes "profsNamed n np = []" "n \<notin> set regs" "\<not> truthy (findClosestMatch n regs)"
    and "isOccupied slot" "professionalName slot = Some pname" "pname \<noteq> []"
      "trim (toLowerCase pname) = n"
    and "validateProfessional stamp regs profs slot this np = (slot', this', np')"
  shows "profsNamed n np' = [newProfessional stamp pname]"
    and "professionalId slot' = Some (id_prof (newProfessional stamp pname))"
  using assms
  by (auto simp: validateProfessional_def Let_def list_ex_profsNamed profsNamed_snoc)

lemma validateProfessional_other:
  assumes "profsNamed n np = []" "\<not> namedLike n slot" "isOccupied slot"
    and "validateProfessional stamp regs profs slot this np = (slot', this', np')"
  shows "profsNamed n np' = []"
  using assms
  by (auto simp: validateProfessional_def Let_def profsNamed_snoc namedLike_def
      split: option.splits if_splits)

lemma validatePatient_namedLike:
  assumes "validatePatient rp apts slot this = (slot1, this1)"
  shows "namedLike n slot1 = namedLike n slot" "professionalName slot1 = professionalName slot"
    "professionalId slot1 = professionalId slot" "isOccupied slot1 = isOccupied slot"
proof -
  have e: "slot1 = slot\<lparr>patientName := patientName slot1\<rparr>"
    by (rule validatePatient_slot [OF assms])
  show "professionalName slot1 = professionalName slot" by (subst e) simp
  show "professionalId slot1 = professionalId slot" by (subst e) simp
  show "isOccupied slot1 = isOccupied slot" by (subst e) simp
  show "namedLike n slot1 = namedLike n slot" by (subst e) (simp add: namedLike_def)
qed

lemma validateSlots_known:
  "profsNamed n np \<noteq> [] \<Longrightarrow> n \<notin> set regs \<Longrightarrow>
   validateSlots stamp rp regs profs apts i slots this np = (slots', this', np') \<Longrightarrow>
     profsNamed n np' = profsNamed n np \<and>
     (\<forall>k<length slots. namedLike n (slots ! k)
         \<longrightarrow> professionalId (slots' ! k) = professionalId (slots ! k))"
proof (induction slots arbitrary: i this np slots' this' np')
  case Nil
  then show ?case by simp
next
  case (Cons slot rest)
  show ?case
  proof (cases "isOccupied slot")
    case False
    then obtain rest' where
      r: "validateSlots stamp rp regs profs apts (Suc i) rest this np = (rest', this', np')"
      and s: "slots' = slot # rest'"
      using Cons.prems by (auto split: prod.splits)
    from Cons.IH [OF Cons.prems(1,2) r] show ?thesis
      by (auto simp: s nth_Cons split: nat.splits)
  next
    case True
    obtain slot1 this1 where p: "validatePatient rp apts slot this = (slot1, this1)"
      by (cases "validatePatient rp apts slot this")
    obtain slot2 this2 np2 where
      q: "validateProfessional (stamp i) regs profs slot1 this1 np = (slot2, this2, np2)"
      by (cases "validateProfessional (stamp i) regs profs slot1 this1 np")
    obtain rest' where
      r: "validateSlots stamp rp regs profs apts (Suc i) rest this2 np2 = (rest', this', np')"
      and s: "slots' = slot2 # rest'"
      using Cons.prems True p q by (auto split: prod.splits)
    have n2: "profsNamed n np2 = profsNamed n np"
      by (rule validateProfessional_known(1) [OF Cons.prems(1) q])
    then have ne: "profsNamed n np2 \<noteq> []" using Cons.prems(1) by simp
    have head: "professionalId slot2 = professionalId slot" if "namedLike n slot"
      using validateProfessional_known(2) [OF Cons.prems(1) q] that Cons.prems(2)
        validatePatient_namedLike(1,3) [OF p] by simp
    from Cons.IH [OF ne Cons.prems(2) r] n2 head show ?thesis
      by (auto simp: s nth_Cons split: nat.splits)
  qed
qed

lemma validateSlots_first:
  "profsNamed n np = [] \<Longrightarrow> n \<notin> set regs \<Longrightarrow> \<not> truthy (findClosestMatch n regs) \<Longrightarrow>
   k < length slots \<Longrightarrow> namedLike n (slots ! k) \<Longrightarrow> \<forall>m<k. \<not> namedLike n (slots ! m) \<Longrightarrow>
   professionalName (slots ! k) = Some pname \<Longrightarrow>
   validateSlots stamp rp regs profs apts i slots this np = (slots', this', np') \<Longrightarrow>
     profsNamed n np' = [newProfessional (stamp (i + k)) pname] \<and>
     professionalId (slots' ! k) = Some (id_prof (newProfessional (stamp (i + k)) pname)) \<and>
     (\<forall>j<length slots. k < j \<and> namedLike n (slots ! j)
         \<longrightarrow> professionalId (slots' ! j) = professionalId (slots ! j))"
proof (induction slots arbitrary: i k this np slots' this' np')
  case Nil
  then show ?case by simp
next
  case (Cons slot rest)
  show ?case
  proof (cases k)
    case 0
    then have nl: "namedLike n slot" and pn: "professionalName slot = Some pname"
      using Cons.prems(5,7) by simp_all
    then have occ: "isOccupied slot" and pname: "pname \<noteq> []" "trim (toLowerCase pname) = n"
      by (simp_all add: namedLike_def)
    obtain slot1 this1 where p: "validatePatient rp apts slot this = (slot1, this1)"
      by (cases "validatePatient rp apts slot this")
    obtain slot2 this2 np2 where
      q: "validateProfessional (stamp i) regs profs slot1 this1 np = (slot2, this2, np2)"
      by (cases "validateProfessional (stamp i) regs profs slot1 this1 np")
    obtain rest' where
      r: "validateSlots stamp rp regs profs apts (Suc i) rest this2 np2 = (rest', this', np')"
      and s: "slots' = slot2 # rest'"
      using Cons.prems(8) occ p q by (auto split: prod.splits)
    note vp = validatePatient_namedLike [OF p]
    have c: "profsNamed n np2 = [newProfessional (stamp i) pname]"
        "professionalId slot2 = Some (id_prof (newProfessional (stamp i) pname))"
      using validateProfessional_creates [OF Cons.prems(1,2,3) _ _ pname q] occ pn vp(2,4)
      by simp_all
    then have ne: "profsNamed n np2 \<noteq> []" by simp
    from validateSlots_known [OF ne Cons.prems(2) r] c show ?thesis
      by (auto simp: s 0 nth_Cons split: nat.splits)
  next
    case (Suc k')
    have first: "\<not> namedLike n slot" using Cons.prems(6) Suc by auto
    have k': "k' < length rest" "namedLike n (rest ! k')" "\<forall>m<k'. \<not> namedLike n (rest ! m)"
      "professionalName (rest ! k') = Some pname"
      using Cons.prems(4,5,6,7) Suc by auto
    show ?thesis
    proof (cases "isOccupied slot")
      case False
      then obtain rest' where
        r: "validateSlots stamp rp regs profs apts (Suc i) rest this np = (rest', this', np')"
        and s: "slots' = slot # rest'"
        using Cons.prems(8) by (auto split: prod.splits)
      from Cons.IH [OF Cons.prems(1,2,3) k' r] show ?thesis
        by (auto simp: s Suc nth_Cons split: nat.splits)
    next
      case True
      obtain slot1 this1 where p: "validatePatient rp apts slot this = (slot1, this1)"
        by (cases "validatePatient rp apts slot this")
      obtain slot2 this2 np2 where
        q: "validateProfessional (stamp i) regs profs slot1 this1 np = (slot2, this2, np2)"
        by (cases "validateProfessional (stamp i) regs profs slot1 this1 np")
      obtain rest' where
        r: "validateSlots stamp rp regs profs apts (Suc i) rest this2 np2 = (rest', this', np')"
        and s: "slots' = slot2 # rest'"
        using Cons.prems(8) True p q by (auto split: prod.splits)
      note vp = validatePatient_namedLike [OF p]
      have e: "profsNamed n np2 = []"
        using validateProfessional_other [OF Cons.prems(1) _ _ q] first True vp(1,4) by simp
      from Cons.IH [OF e Cons.prems(2,3) k' r] show ?thesis
        by (auto simp: s Suc nth_Cons split: nat.splits)
    qed
  qed
qed

lemma validateNames_synthetic:
  assumes v: "validateNames stamp this data profs apts = (this1, data1)"
    and none: "profsNamed n (newProfessionals data) = []"
    and reg: "n \<notin> set (map (\<lambda>prof. trim (toLowerCase (name_prof prof))) profs)"
    and fuzzy: "\<not> truthy (findClosestMatch n (map (\<lambda>prof. trim (toLowerCase (name_prof prof))) profs))"
    and k: "k < length (schedule data)" "namedLike n (schedule data ! k)"
      "\<forall>m<k. \<not> namedLike n (schedule data ! m)"
      "professionalName (schedule data ! k) = Some pname"
  shows "profsNamed n (newProfessionals data1) = [newProfessional (stamp k) pname]"
    and "professionalId (schedule data1 ! k) = Some (id_prof (newProfessional (stamp k) pname))"
    and "\<forall>j<length (schedule data). k < j \<and> namedLike n (schedule data ! j)
           \<longrightarrow> professionalId (schedule data1 ! j) = professionalId (schedule data ! j)"
proof -
  let ?rp = "uniqueInOrder (map (\<lambda>apt. trim (toLowerCase (client apt))) apts)"
  let ?regs = "map (\<lambda>prof. trim (toLowerCase (name_prof prof))) profs"
  obtain s' t' n' where
    vs: "validateSlots stamp ?rp ?regs profs apts 0 (schedule data) this (newProfessionals data) = (s', t', n')"
    by (cases "validateSlots stamp ?rp ?regs profs apts 0 (schedule data) this (newProfessionals data)")
  have eq: "data1 = data\<lparr>schedule := s', newProfessionals := n'\<rparr>"
    using v vs by (simp add: validateNames_def Let_def)
  from validateSlots_first [OF none reg fuzzy k vs]
  show "profsNamed n (newProfessionals data1) = [newProfessional (stamp k) pname]"
    and "professionalId (schedule data1 ! k) = Some (id_prof (newProfessional (stamp k) pname))"
    and "\<forall>j<length (schedule data). k < j \<and> namedLike n (schedule data ! j)
           \<longrightarrow> professionalId (schedule data1 ! j) = professionalId (schedule data ! j)"
    by (simp_all add: eq)
qed

lemma first_namedLike:
  assumes "namedLike n (sched ! i)"
  obtains k where "k \<le> i" "namedLike n (sched ! k)" "\<forall>m<k. \<not> namedLike n (sched ! m)"
proof -
  let ?k = "LEAST k. namedLike n (sched ! k)"
  have "namedLike n (sched ! ?k)" using assms by (rule LeastI)
  moreover have "?k \<le> i" using assms by (rule Least_le)
  moreover have "\<forall>m<?k. \<not> namedLike n (sched ! m)" using not_less_Least by blast
  ultimately show ?thesis using that by blast
qed

lemma synthetic_run:
  assumes run: "processImportedData stamp this data profs apts = Inr (ai, out)"
    and ij: "i < j" "j < length (schedule data)"
    and named: "namedLike n (schedule data ! i)" "namedLike n (schedule data ! j)"
    and reg: "n \<notin> set (map (\<lambda>prof. trim (toLowerCase (name_prof prof))) profs)"
    and fuzzy: "\<not> truthy (findClosestMatch n (map (\<lambda>prof. trim (toLowerCase (name_prof prof))) profs))"
    and none: "profsNamed n (newProfessionals data) = []"
  shows "length (profsNamed n (newProfessionals out)) = 1"
    and "professionalId (schedule out ! j) = professionalId (schedule data ! j)"
    and "(\<forall>m<i. \<not> namedLike n (schedule data ! m)) \<Longrightarrow>
           professionalName (schedule data ! i) = Some pname \<Longrightarrow>
           profsNamed n (newProfessionals out) = [newProfessional (stamp i) pname]
           \<and> professionalId (schedule out ! i) = Some (id_prof (newProfessional (stamp i) pname))"
proof -
  from processImportedData_runSteps [OF run] obtain this1 data1 groupsP groupsR s2 s3 s4 where
    rs: "runSteps stamp this data profs apts ai out this1 data1 groupsP groupsR s2 s3 s4"
    by blast
  note v = runStepsD(1) [OF rs] and np = runStepsD(8) [OF rs]
  note len = runSteps_length(4,5) [OF rs]
  have pid: "professionalId (schedule out ! m) = professionalId (schedule data1 ! m)"
    if "m < length (schedule data)" for m
    using static_fields(9) [OF static_nth [OF runSteps_static(4) [OF rs], of m]] that len by simp
  from first_namedLike [OF named(1)] obtain k where
    k: "k \<le> i" "namedLike n (schedule data ! k)" "\<forall>m<k. \<not> namedLike n (schedule data ! m)"
    by blast
  from k(2) obtain kname where kname: "professionalName (schedule data ! k) = Some kname"
    by (auto simp: namedLike_def split: option.splits)
  have kl: "k < length (schedule data)" using k(1) ij by simp
  note first = validateNames_synthetic [OF v none reg fuzzy kl k(2,3) kname]
  show "length (profsNamed n (newProfessionals out)) = 1"
    unfolding np first(1) by simp
  have "professionalId (schedule data1 ! j) = professionalId (schedule data ! j)"
    using first(3) ij k(1) named(2) by simp
  then show "professionalId (schedule out ! j) = professionalId (schedule data ! j)"
    using pid [OF ij(2)] by simp
  show "profsNamed n (newProfessionals out) = [newProfessional (stamp i) pname]
           \<and> professionalId (schedule out ! i) = Some (id_prof (newProfessional (stamp i) pname))"
    if f: "\<forall>m<i. \<not> namedLike n (schedule data ! m)"
      and pn: "professionalName (schedule data ! i) = Some pname"
  proof -
    have il: "i < length (schedule data)" using ij by simp
    note me = validateNames_synthetic [OF v none reg fuzzy il named(1) f pn]
    show ?thesis unfolding np using me(1,2) pid [OF il] by simp
  qed
qed

lemma key_not_inherited:
  assumes "t \<noteq> []" "CHR ''_'' \<notin> set t"
  shows "a @ ''_'' @ b @ ''_'' @ t \<notin> set inheritedProperties"
proof
  assume k: "a @ ''_'' @ b @ ''_'' @ t \<in> set inheritedProperties"
  have u: "CHR ''_'' \<in> set (a @ ''_'' @ b @ ''_'' @ t)" by simp
  have "last (a @ ''_'' @ b @ ''_'' @ t) = last t" using assms(1) by simp
  moreover have "last t \<in> set t" using assms(1) by simp
  ultimately have l: "last (a @ ''_'' @ b @ ''_'' @ t) \<noteq> CHR ''_''" using assms(2) by metis
  from k consider
      "a @ ''_'' @ b @ ''_'' @ t = ''constructor''" | "a @ ''_'' @ b @ ''_'' @ t = ''__defineGetter__''"
    | "a @ ''_'' @ b @ ''_'' @ t = ''__defineSetter__''" | "a @ ''_'' @ b @ ''_'' @ t = ''hasOwnProperty''"
    | "a @ ''_'' @ b @ ''_'' @ t = ''__lookupGetter__''" | "a @ ''_'' @ b @ ''_'' @ t = ''__lookupSetter__''"
    | "a @ ''_'' @ b @ ''_'' @ t = ''isPrototypeOf''" | "a @ ''_'' @ b @ ''_'' @ t = ''propertyIsEnumerable''"
    | "a @ ''_'' @ b @ ''_'' @ t = ''toString''" | "a @ ''_'' @ b @ ''_'' @ t = ''valueOf''"
    | "a @ ''_'' @ b @ ''_'' @ t = ''__proto__''" | "a @ ''_'' @ b @ ''_'' @ t = ''toLocaleString''"
    unfolding inheritedProperties_def by auto
  then show False
  proof cases
    case 1 with u show ?thesis by (simp only:) simp
  next
    case 2 with l show ?thesis by (simp only:) simp
  next
    case 3 with l show ?thesis by (simp only:) simp
  next
    case 4 with u show ?thesis by (simp only:) simp
  next
    case 5 with l show ?thesis by (simp only:) simp
  next
    case 6 with l show ?thesis by (simp only:) simp
  next
    case 7 with u show ?thesis by (simp only:) simp
  next
    case 8 with u show ?thesis by (simp only:) simp
  next
    case 9 with u show ?thesis by (simp only:) simp
  next
    case 10 with u show ?thesis by (simp only:) simp
  next
    case 11 with l show ?thesis by (simp only:) simp
  next
    case 12 with u show ?thesis by (simp only:) simp
  qed
qed

lemma plainTime_keys:
  assumes "plainTime slot"
  shows "profDayTimeKey slot \<notin> set inheritedProperties"
    "roomDayTimeKey slot \<notin> set inheritedProperties"
  using assms key_not_inherited [of "time_slot slot"]
  unfolding plainTime_def profDayTimeKey_def roomDayTimeKey_def by blast+

lemma plainTime_namesErased: "namesErased a = namesErased b \<Longrightarrow> plainTime a = plainTime b"
  using namesErased_fields(4) [of a b] by (simp add: plainTime_def)

lemma plainTime_static: "staticPart a = staticPart b \<Longrightarrow> plainTime a = plainTime b"
  using static_fields(4) [of a b] by (simp add: plainTime_def)

lemma plainTime_all_namesErased:
  assumes "map namesErased s = map namesErased s'" "\<forall>slot\<in>set s'. plainTime slot"
  shows "\<forall>slot\<in>set s. plainTime slot"
proof
  fix slot assume "slot \<in> set s"
  then obtain i where i: "i < length s" "s ! i = slot" by (auto simp: in_set_conv_nth)
  have "length s = length s'" by (rule map_eq_imp_length_eq [OF assms(1)])
  then have "plainTime (s' ! i)" using assms(2) i(1) by simp
  then show "plainTime slot"
    using plainTime_namesErased [OF namesErased_nth [OF assms(1) i(1)]] i(2) by simp
qed

lemma plainTime_all_static:
  assumes "map staticPart s = map staticPart s'" "\<forall>slot\<in>set s'. plainTime slot"
  shows "\<forall>slot\<in>set s. plainTime slot"
proof
  fix slot assume "slot \<in> set s"
  then obtain i where i: "i < length s" "s ! i = slot" by (auto simp: in_set_conv_nth)
  have "length s = length s'" by (rule map_eq_imp_length_eq [OF assms(1)])
  then have "plainTime (s' ! i)" using assms(2) i(1) by simp
  then show "plainTime slot"
    using plainTime_static [OF static_nth [OF assms(1) i(1)]] i(2) by simp
qed

text \<open>
  A run returns whenever every time value of the schedule is non-empty and free of
  underscores: no grouping key is then the name of an inherited property.
\<close>

lemma processImportedData_returns:
  assumes "\<forall>slot\<in>set (schedule data). plainTime slot"
  shows "\<exists>ai out. processImportedData stamp this data profs apts = Inr (ai, out)"
proof -
  let ?init = "this\<lparr>originalData := Some data, suggestedChanges := [], conflicts := [],
             validationErrors := [], autoCorrections := []\<rparr>"
  obtain this1 data1 where v: "validateNames stamp ?init data profs apts = (this1, data1)"
    by (cases "validateNames stamp ?init data profs apts")
  have p1: "\<forall>slot\<in>set (schedule data1). plainTime slot"
    by (rule plainTime_all_namesErased [OF validateNames_frame(1) [OF v] assms])
  obtain groupsP where gP: "slotsByProfDayTime (schedule data1) = Inr groupsP"
    using groupSlots_total [of "schedule data1" _ profDayTimeKey 0 "[]"] p1 plainTime_keys(1)
    unfolding slotsByProfDayTime_def by blast
  have rngP: "inRange groupsP (schedule data1)"
    by (rule groupsOf_inRange [OF slotsByProfDayTime_groupsOf [OF gP]])
  let ?s3 = "map (slotOf (checkExistingAppointment apts))
      (markedIn (\<Union>(k, g)\<in>set (bigGroups groupsP). set g) (schedule data1))"
  obtain this2 where
    d: "detectScheduleConflicts this1 data1 profs apts = Inr (this2, data1\<lparr>schedule := ?s3\<rparr>)"
    by (simp add: detectScheduleConflicts_def gP reportDoubleBookings_eq [OF rngP]
        forEachSlot_uniform [OF uniform_checkExistingAppointment])
  have "map staticPart ?s3 = map staticPart (schedule data1)"
    unfolding static_map_existing static_markedIn by (rule refl)
  then have p3: "\<forall>slot\<in>set ?s3. plainTime slot"
    using p1 by (rule plainTime_all_static)
  obtain groupsR where gR: "slotsByRoomDayTime ?s3 = Inr groupsR"
    using groupSlots_total [of ?s3 _ roomDayTimeKey 0 "[]"] p3 plainTime_keys(2)
    unfolding slotsByRoomDayTime_def by blast
  have rngR: "inRange groupsR ?s3"
    by (rule groupsOf_inRange [OF slotsByRoomDayTime_groupsOf [OF gR]])
  obtain this3 data3 where
    r: "detectDuplicateRoomsOrTimes this2 (data1\<lparr>schedule := ?s3\<rparr>) = Inr (this3, data3)"
    by (simp add: detectDuplicateRoomsOrTimes_def gR reportDuplicateRooms_eq [OF rngR])
  obtain ai out where c: "checkInactiveProfessionals this3 data3 profs = (ai, out)"
    by (cases "checkInactiveProfessionals this3 data3 profs")
  have "processImportedData stamp this data profs apts = Inr (ai, out)"
    using v d r c by (simp add: processImportedData_def Let_def)
  then show ?thesis by blast
qed

section \<open>Claims about string similarity and name matching\<close>

text \<open>
  Claim C6. For all strings \<open>a\<close> and \<open>b\<close>, \<open>_levenshteinDistance\<close>, the dynamic programme
  over the \<open>(len(b)+1) \<times> (len(a)+1)\<close> table, returns the classic edit distance: the value
  of the reference recursion \<^const>\<open>editDistance\<close>, which is the least number of
  single-character insertions, deletions and substitutions turning the one string into the
  other (lemmas \<open>edits_editDistance\<close> and \<open>editDistance_le_edits\<close>).
\<close>

theorem levenshteinDistance_editDistance:
  "levenshteinDistance a b = editDistance a b"
  by (rule levenshteinDistance_eq)

text \<open>
  Claim C7. For all strings \<open>a\<close> and \<open>b\<close> the similarity lies in the closed interval from 0
  to 1, the similarity of a string with itself is 1, and the similarity of two empty strings
  is 1.
\<close>

theorem calculateSimilarity_bounds:
  "0 \<le> calculateSimilarity a b \<and> calculateSimilarity a b \<le> 1
     \<and> calculateSimilarity a a = 1 \<and> calculateSimilarity [] [] = 1"
proof -
  have bounds: "0 \<le> (of_nat L - of_nat d) / (of_nat L :: rat) \<and> (of_nat L - of_nat d) / (of_nat L :: rat) \<le> 1"
    if "d \<le> L" "0 < L" for d L :: nat
  proof -
    have "(of_nat d :: rat) \<le> of_nat L" using that by simp
    moreover have "(0 :: rat) < of_nat L" using that by simp
    moreover have "(0 :: rat) \<le> of_nat d" by simp
    ultimately show ?thesis by (simp add: divide_le_eq)
  qed
  have 1: "0 \<le> calculateSimilarity a b \<and> calculateSimilarity a b \<le> 1"
  proof (cases "length a > length b")
    case True
    then have "levenshteinDistance a b \<le> length a" "0 < length a"
      using levenshteinDistance_le [of b a] by auto
    from bounds [OF this] True show ?thesis
      by (simp add: calculateSimilarity_def)
  next
    case False
    show ?thesis
    proof (cases "length b = 0")
      case True
      with False show ?thesis by (simp add: calculateSimilarity_def)
    next
      case nz: False
      from False have "levenshteinDistance b a \<le> length b" "0 < length b"
        using levenshteinDistance_le [of a b] nz by simp_all
      from bounds [OF this] False nz show ?thesis
        by (simp add: calculateSimilarity_def)
    qed
  qed
  have 2: "calculateSimilarity a a = 1"
    by (simp add: calculateSimilarity_def levenshteinDistance_eq)
  have 3: "calculateSimilarity [] [] = 1"
    by (simp add: calculateSimilarity_def)
  from 1 2 3 show ?thesis by blast
qed

text \<open>
  Claim C2, as amended. \<open>_findClosestMatch\<close> has two passes, not three. A non-empty exact
  match anywhere in the registry is returned first. Otherwise the registry is scanned once, in
  its given order, and the first entry that contains the candidate, is contained in it, or
  has similarity above 0.80 is returned: containment and similarity are tested together,
  entry by entry, so an earlier entry that only passes the similarity test wins over a later
  entry that passes containment.
\<close>

theorem findClosestMatch_single_scan:
  "findClosestMatch name reg = Some r \<longleftrightarrow>
     (let n = trim (toLowerCase name)
      in if n \<in> set reg \<and> n \<noteq> [] then r = n
         else (\<exists>k<length reg. reg ! k = r
                \<and> (str_includes r n \<or> str_includes n r \<or> calculateSimilarity n r > 4 / 5)
                \<and> (\<forall>i<k. \<not> (str_includes (reg ! i) n \<or> str_includes n (reg ! i)
                             \<or> calculateSimilarity n (reg ! i) > 4 / 5))))"
  unfolding findClosestMatch_find Let_def
  by (auto simp: find_Some_iff)

theorem findClosestMatch_single_scan_witness:
  "\<exists>k<length [''abcdef'', ''abcdegh'']. [''abcdef'', ''abcdegh''] ! k = ''abcdef''
      \<and> (\<forall>i<k. \<not> (str_includes ([''abcdef'', ''abcdegh''] ! i) ''abcdeg''))"
proof -
  have run: "findClosestMatch ''abcdeg'' [''abcdef'', ''abcdegh''] = Some ''abcdef''"
    by code_simp
  have n: "trim (toLowerCase ''abcdeg'') = ''abcdeg''"
    by code_simp
  from run findClosestMatch_single_scan [of "''abcdeg''" "[''abcdef'', ''abcdegh'']" "''abcdef''"]
  show ?thesis unfolding n Let_def by auto
qed

text \<open>
  The claim as written fails: the second registry entry contains the candidate, the first
  one passes the similarity test only, and the first one is returned.
\<close>

theorem findClosestMatch_containment_first_counterexample:
  "str_includes ''abcdegh'' ''abcdeg''
   \<and> \<not> str_includes ''abcdef'' ''abcdeg'' \<and> \<not> str_includes ''abcdeg'' ''abcdef''
   \<and> ''abcdef'' \<noteq> ''abcdeg''
   \<and> calculateSimilarity ''abcdeg'' ''abcdef'' > 4 / 5
   \<and> findClosestMatch ''abcdeg'' [''abcdef'', ''abcdegh''] = Some ''abcdef''
   \<and> findClosestMatch ''abcdeg'' [''abcdef'', ''abcdegh''] \<noteq> Some ''abcdegh''"
  by code_simp

text \<open>
  Claim C5. The fuzzy rule of \<open>_findClosestMatch\<close> is strict at the threshold. A registry
  entry \<open>r\<close> with no containment either way and similarity exactly 0.80 to the normalised
  candidate is never returned, whatever the registry. An entry with similarity above 0.80 is
  returned when no earlier rule fires: no entry before it satisfies containment or the
  similarity test, and the candidate is not found exactly further on.
\<close>

theorem findClosestMatch_threshold_strict:
  assumes "n = trim (toLowerCase name)" "\<not> str_includes r n" "\<not> str_includes n r"
  shows "(calculateSimilarity n r = 4 / 5 \<longrightarrow> findClosestMatch name reg \<noteq> Some r)
       \<and> (calculateSimilarity n r > 4 / 5 \<and> n \<notin> set post
            \<and> (\<forall>e\<in>set pre. \<not> str_includes e n \<and> \<not> str_includes n e
                    \<and> \<not> calculateSimilarity n e > 4 / 5)
          \<longrightarrow> findClosestMatch name (pre @ r # post) = Some r)"
proof (intro conjI impI)
  have rn: "r \<noteq> n" using assms(2) by (auto simp: str_includes_def)
  {
    assume eq: "calculateSimilarity n r = 4 / 5"
    show "findClosestMatch name reg \<noteq> Some r"
      using assms rn eq by (auto simp: findClosestMatch_find Let_def find_Some_iff)
  }
  {
    assume h: "calculateSimilarity n r > 4 / 5 \<and> n \<notin> set post
            \<and> (\<forall>e\<in>set pre. \<not> str_includes e n \<and> \<not> str_includes n e
                    \<and> \<not> calculateSimilarity n e > 4 / 5)"
    then have "n \<notin> set pre" by (auto simp: str_includes_def)
    with h rn have notin: "n \<notin> set (pre @ r # post)" by auto
    have "find (\<lambda>r. str_includes r n \<or> str_includes n r \<or> calculateSimilarity n r > 4 / 5) (pre @ r # post) = Some r"
      using h by (induction pre) auto
    then show "findClosestMatch name (pre @ r # post) = Some r"
      using notin assms(1) by (simp add: findClosestMatch_find Let_def)
  }
qed

theorem findClosestMatch_threshold_strict_witness:
  "calculateSimilarity ''abcde'' ''abcdx'' = 4 / 5
   \<and> findClosestMatch ''abcde'' [''abcdx''] \<noteq> Some ''abcdx''
   \<and> calculateSimilarity ''abcdef'' ''abcdex'' > 4 / 5
   \<and> findClosestMatch ''abcdef'' ([''zzzzzz''] @ ''abcdex'' # [''abcdey'']) = Some ''abcdex''"
proof -
  have a1: "''abcde'' = trim (toLowerCase ''abcde'')" by code_simp
  have a2: "\<not> str_includes ''abcdx'' ''abcde''" by code_simp
  have a3: "\<not> str_includes ''abcde'' ''abcdx''" by code_simp
  have a4: "calculateSimilarity ''abcde'' ''abcdx'' = 4 / 5" by code_simp
  have b1: "''abcdef'' = trim (toLowerCase ''abcdef'')" by code_simp
  have b2: "\<not> str_includes ''abcdex'' ''abcdef''" by code_simp
  have b3: "\<not> str_includes ''abcdef'' ''abcdex''" by code_simp
  have b4: "calculateSimilarity ''abcdef'' ''abcdex'' > 4 / 5" by code_simp
  have b5: "''abcdef'' \<notin> set [''abcdey'']" by simp
  have b6: "\<forall>e\<in>set [''zzzzzz'']. \<not> str_includes e ''abcdef'' \<and> \<not> str_includes ''abcdef'' e
                    \<and> \<not> calculateSimilarity ''abcdef'' e > 4 / 5" by code_simp
  from findClosestMatch_threshold_strict [OF a1 a2 a3, where reg = "[''abcdx'']"] a4
  have A: "findClosestMatch ''abcde'' [''abcdx''] \<noteq> Some ''abcdx''" by blast
  from findClosestMatch_threshold_strict
      [OF b1 b2 b3, where pre = "[''zzzzzz'']" and post = "[''abcdey'']"] b4 b5 b6
  have B: "findClosestMatch ''abcdef'' ([''zzzzzz''] @ ''abcdex'' # [''abcdey'']) = Some ''abcdex''"
    by blast
  from a4 A b4 B show ?thesis by blast
qed

section \<open>Claims about a reconciliation run\<close>

text \<open>
  Claim C1, as amended. In a run that returns, let two occupied slots of the imported
  schedule, at positions \<open>i < j\<close>, carry professional names with the same normalised form
  \<open>n\<close>, where \<open>n\<close> is not a normalised registry name, \<open>_findClosestMatch\<close> finds no registry
  entry for it, and no entry of \<open>newProfessionals\<close> has it on input. Then \<open>newProfessionals\<close>
  holds exactly one professional of that normalised name after the run, the synthetic one. It
  is created for the first slot of the schedule that carries the name, and only that slot is
  given its id: the later slot \<open>j\<close> is skipped by the test ``already in the list of new
  professionals'' (source lines 138--142) and keeps the \<open>professionalId\<close> it had on input.
\<close>

theorem synthetic_professional_once:
  assumes "processImportedData stamp this data profs apts = Inr (ai, out)"
    and "i < j" "j < length (schedule data)"
    and "namedLike n (schedule data ! i)" "namedLike n (schedule data ! j)"
    and "n \<notin> set (map (\<lambda>prof. trim (toLowerCase (name_prof prof))) profs)"
    and "\<not> truthy (findClosestMatch n (map (\<lambda>prof. trim (toLowerCase (name_prof prof))) profs))"
    and "profsNamed n (newProfessionals data) = []"
  shows "length (profsNamed n (newProfessionals out)) = 1
       \<and> professionalId (schedule out ! j) = professionalId (schedule data ! j)
       \<and> ((\<forall>m<i. \<not> namedLike n (schedule data ! m))
              \<and> professionalName (schedule data ! i) = Some pname
            \<longrightarrow> profsNamed n (newProfessionals out) = [newProfessional (stamp i) pname]
                \<and> professionalId (schedule out ! i)
                    = Some (id_prof (newProfessional (stamp i) pname)))"
  using synthetic_run [OF assms] by blast

theorem synthetic_professional_once_witness:
  "\<exists>ai out.
     processImportedData exStamp exEngine
       (exData [exSlot ''s1'' ''Sala 1'' (Some ''Zed'') None,
                exSlot ''s2'' ''Sala 2'' (Some ''zed '') None])
       [exProfessional ''p1'' ''Ana'' False] [] = Inr (ai, out)
     \<and> length (profsNamed ''zed'' (newProfessionals out)) = 1
     \<and> profsNamed ''zed'' (newProfessionals out) = [newProfessional (exStamp 0) ''Zed'']
     \<and> professionalId (schedule out ! 0) = Some (id_prof (newProfessional (exStamp 0) ''Zed''))
     \<and> professionalId (schedule out ! 1) = None"
proof -
  define data where "data = exData [exSlot ''s1'' ''Sala 1'' (Some ''Zed'') None,
                exSlot ''s2'' ''Sala 2'' (Some ''zed '') None]"
  define profs where "profs = [exProfessional ''p1'' ''Ana'' False]"
  define run where "run = processImportedData exStamp exEngine data profs []"
  define ai where "ai = fst (projr run)"
  define out where "out = snd (projr run)"
  have "\<not> isl run" unfolding run_def data_def profs_def by code_simp
  then have run: "run = Inr (ai, out)" by (simp add: ai_def out_def)
  have ij: "(0::nat) < 1" "1 < length (schedule data)"
    unfolding data_def by code_simp+
  have named: "namedLike ''zed'' (schedule data ! 0)" "namedLike ''zed'' (schedule data ! 1)"
    unfolding data_def by code_simp+
  have reg: "''zed'' \<notin> set (map (\<lambda>prof. trim (toLowerCase (name_prof prof))) profs)"
    unfolding profs_def by code_simp
  have fuzzy: "\<not> truthy (findClosestMatch ''zed'' (map (\<lambda>prof. trim (toLowerCase (name_prof prof))) profs))"
    unfolding profs_def by code_simp
  have none: "profsNamed ''zed'' (newProfessionals data) = []"
    unfolding data_def by code_simp
  have first: "\<forall>m<0::nat. \<not> namedLike ''zed'' (schedule data ! m)" by simp
  have pn: "professionalName (schedule data ! 0) = Some ''Zed''"
    unfolding data_def by code_simp
  have old: "professionalId (schedule data ! 1) = None"
    unfolding data_def by code_simp
  note t = synthetic_professional_once [OF run [unfolded run_def] ij named reg fuzzy none,
      of "''Zed''"]
  from t have a: "length (profsNamed ''zed'' (newProfessionals out)) = 1" by (rule conjunct1)
  from t have b: "professionalId (schedule out ! 1) = None"
    unfolding old [symmetric] by (rule conjunct2 [THEN conjunct1])
  from t first pn have c: "profsNamed ''zed'' (newProfessionals out) = [newProfessional (exStamp 0) ''Zed'']
      \<and> professionalId (schedule out ! 0) = Some (id_prof (newProfessional (exStamp 0) ''Zed''))"
    by blast
  from run [unfolded run_def data_def profs_def] a b c show ?thesis by blast
qed

text \<open>
  The claim as written fails: both slots are occupied and carry the normalised name \<open>zed\<close>,
  which is neither in the registry nor matched by \<open>_findClosestMatch\<close>; one synthetic
  professional is created and the first slot refers to it, but the second slot is left
  without a \<open>professionalId\<close>.
\<close>

theorem synthetic_professional_both_slots_counterexample:
  "\<not> isl (processImportedData exStamp exEngine
       (exData [exSlot ''s1'' ''Sala 1'' (Some ''Zed'') None,
                exSlot ''s2'' ''Sala 2'' (Some ''zed '') None])
       [exProfessional ''p1'' ''Ana'' False] [])
   \<and> trim (toLowerCase ''Zed'') = ''zed'' \<and> trim (toLowerCase ''zed '') = ''zed''
   \<and> trim (toLowerCase ''Ana'') \<noteq> ''zed''
   \<and> findClosestMatch ''zed'' [trim (toLowerCase ''Ana'')] = None
   \<and> map id_prof (newProfessionals (snd (projr (processImportedData exStamp exEngine
       (exData [exSlot ''s1'' ''Sala 1'' (Some ''Zed'') None,
                exSlot ''s2'' ''Sala 2'' (Some ''zed '') None])
       [exProfessional ''p1'' ''Ana'' False] []))))
       = [''ai_new_prof_1700000000000_0.5'']
   \<and> map professionalId (schedule (snd (projr (processImportedData exStamp exEngine
       (exData [exSlot ''s1'' ''Sala 1'' (Some ''Zed'') None,
                exSlot ''s2'' ''Sala 2'' (Some ''zed '') None])
       [exProfessional ''p1'' ''Ana'' False] []))))
       = [Some ''ai_new_prof_1700000000000_0.5'', None]"
  by code_simp

text \<open>
  Claim C3, as amended. The slots are read in \<open>processedData\<close>: the double-booking pass runs
  after name validation, which overwrites the \<open>professionalId\<close> of a slot whose professional
  name is matched to a registry entry by \<open>_findClosestMatch\<close> (source line 155). In a run that
  returns, take two different slots of \<open>processedData\<close> that are occupied, have a non-empty
  professional id, and agree on professional id, appointment date and time. Then the result has
  a \<open>'Profissional em Multiplas Salas'\<close> conflict whose slot-id list holds the id of every
  occupied slot agreeing with them on the three fields, and every such slot has
  \<open>hasScheduleConflict\<close> set.
\<close>

theorem double_booking_complete:
  assumes "processImportedData stamp this data profs apts = Inr (ai, out)"
    and "i < length (schedule out)" "j < length (schedule out)" "i \<noteq> j"
    and "isOccupied (schedule out ! i)" "truthy (professionalId (schedule out ! i))"
    and "isOccupied (schedule out ! j)"
    and "professionalId (schedule out ! j) = professionalId (schedule out ! i)"
      "appointmentDate (schedule out ! j) = appointmentDate (schedule out ! i)"
      "time_slot (schedule out ! j) = time_slot (schedule out ! i)"
  shows "\<exists>pn rooms dt ids.
           ProfissionalEmMultiplasSalas pn rooms dt ids \<in> set (conflicts ai) \<and>
           (\<forall>k<length (schedule out).
              isOccupied (schedule out ! k)
              \<and> professionalId (schedule out ! k) = professionalId (schedule out ! i)
              \<and> appointmentDate (schedule out ! k) = appointmentDate (schedule out ! i)
              \<and> time_slot (schedule out ! k) = time_slot (schedule out ! i)
              \<longrightarrow> id_slot (schedule out ! k) \<in> set ids \<and> hasScheduleConflict (schedule out ! k))"
  using assms by (rule doubleBooking_run)

theorem double_booking_complete_witness:
  "\<exists>ai out.
     processImportedData exStamp exEngine
       (exData [exSlot ''s1'' ''Sala 1'' (Some ''Ana Sousa'') (Some ''p2''),
                exSlot ''s2'' ''Sala 2'' (Some ''Ana Souza'') (Some ''p1'')])
       [exProfessional ''p1'' ''Ana Souza'' False, exProfessional ''p2'' ''Bob'' False] []
       = Inr (ai, out)
     \<and> map professionalId (schedule out) = [Some ''p1'', Some ''p1'']
     \<and> (\<exists>pn rooms dt ids.
           ProfissionalEmMultiplasSalas pn rooms dt ids \<in> set (conflicts ai)
           \<and> ''s1'' \<in> set ids \<and> ''s2'' \<in> set ids)
     \<and> hasScheduleConflict (schedule out ! 0) \<and> hasScheduleConflict (schedule out ! 1)"
proof -
  define run where "run = processImportedData exStamp exEngine
       (exData [exSlot ''s1'' ''Sala 1'' (Some ''Ana Sousa'') (Some ''p2''),
                exSlot ''s2'' ''Sala 2'' (Some ''Ana Souza'') (Some ''p1'')])
       [exProfessional ''p1'' ''Ana Souza'' False, exProfessional ''p2'' ''Bob'' False] []"
  define ai where "ai = fst (projr run)"
  define out where "out = snd (projr run)"
  have "\<not> isl run" unfolding run_def by code_simp
  then have run: "run = Inr (ai, out)" by (simp add: ai_def out_def)
  have l: "0 < length (schedule out)" "Suc 0 < length (schedule out)" "0 \<noteq> Suc 0"
    unfolding out_def run_def by code_simp+
  have h0: "isOccupied (schedule out ! 0)" "truthy (professionalId (schedule out ! 0))"
    unfolding out_def run_def by code_simp+
  have h1: "isOccupied (schedule out ! Suc 0)"
    "professionalId (schedule out ! Suc 0) = professionalId (schedule out ! 0)"
    "appointmentDate (schedule out ! Suc 0) = appointmentDate (schedule out ! 0)"
    "time_slot (schedule out ! Suc 0) = time_slot (schedule out ! 0)"
    unfolding out_def run_def by code_simp+
  have ids: "id_slot (schedule out ! 0) = ''s1''" "id_slot (schedule out ! Suc 0) = ''s2''"
    unfolding out_def run_def by code_simp+
  have pids: "map professionalId (schedule out) = [Some ''p1'', Some ''p1'']"
    unfolding out_def run_def by code_simp
  have one: "schedule out ! 1 = schedule out ! Suc 0" by simp
  from double_booking_complete [OF run [unfolded run_def] l h0 h1] obtain pn rooms dt ids where
    c: "ProfissionalEmMultiplasSalas pn rooms dt ids \<in> set (conflicts ai)"
    and each: "\<And>k. k < length (schedule out) \<Longrightarrow>
              isOccupied (schedule out ! k)
              \<and> professionalId (schedule out ! k) = professionalId (schedule out ! 0)
              \<and> appointmentDate (schedule out ! k) = appointmentDate (schedule out ! 0)
              \<and> time_slot (schedule out ! k) = time_slot (schedule out ! 0)
              \<Longrightarrow> id_slot (schedule out ! k) \<in> set ids \<and> hasScheduleConflict (schedule out ! k)"
    by blast
  from each [OF l(1)] h0(1)
  have 0: "''s1'' \<in> set ids" "hasScheduleConflict (schedule out ! 0)"
    unfolding ids(1) [symmetric] by blast+
  from each [OF l(2)] h1
  have 1: "''s2'' \<in> set ids" "hasScheduleConflict (schedule out ! 1)"
    unfolding ids(2) [symmetric] one by blast+
  from c 0(1) 1(1) have ex: "\<exists>pn rooms dt ids.
           ProfissionalEmMultiplasSalas pn rooms dt ids \<in> set (conflicts ai)
           \<and> ''s1'' \<in> set ids \<and> ''s2'' \<in> set ids"
    by blast
  show ?thesis
    apply (rule exI [of _ ai])
    apply (rule exI [of _ out])
    apply (intro conjI)
        apply (rule run [unfolded run_def])
       apply (rule pids)
      apply (rule ex)
     apply (rule 0(2))
    apply (rule 1(2))
    done
qed

text \<open>
  The claim as written fails: both slots of the input are occupied and agree on the professional
  id \<open>p2\<close>, the appointment date and the time. The name \<open>Ana Sousa\<close> of the first slot is not a
  registry name and \<open>_findClosestMatch\<close> returns the registry name \<open>Ana Souza\<close> for it
  (similarity 8/9), so name validation gives that slot the id \<open>p1\<close> before the double-booking
  pass runs. The run reports no conflict and sets \<open>hasScheduleConflict\<close> on neither slot.
\<close>

theorem double_booking_input_ids_counterexample:
  "\<not> isl (processImportedData exStamp exEngine
       (exData [exSlot ''s1'' ''Sala 1'' (Some ''Ana Sousa'') (Some ''p2''),
                exSlot ''s2'' ''Sala 2'' (Some ''Bob'') (Some ''p2'')])
       [exProfessional ''p1'' ''Ana Souza'' False, exProfessional ''p2'' ''Bob'' False] [])
   \<and> map isOccupied (schedule
       (exData [exSlot ''s1'' ''Sala 1'' (Some ''Ana Sousa'') (Some ''p2''),
                exSlot ''s2'' ''Sala 2'' (Some ''Bob'') (Some ''p2'')])) = [True, True]
   \<and> map professionalId (schedule
       (exData [exSlot ''s1'' ''Sala 1'' (Some ''Ana Sousa'') (Some ''p2''),
                exSlot ''s2'' ''Sala 2'' (Some ''Bob'') (Some ''p2'')]))
       = [Some ''p2'', Some ''p2'']
   \<and> map appointmentDate (schedule
       (exData [exSlot ''s1'' ''Sala 1'' (Some ''Ana Sousa'') (Some ''p2''),
                exSlot ''s2'' ''Sala 2'' (Some ''Bob'') (Some ''p2'')]))
       = [''2024-01-01'', ''2024-01-01'']
   \<and> map time_slot (schedule
       (exData [exSlot ''s1'' ''Sala 1'' (Some ''Ana Sousa'') (Some ''p2''),
                exSlot ''s2'' ''Sala 2'' (Some ''Bob'') (Some ''p2'')]))
       = [''09:00'', ''09:00'']
   \<and> conflicts (fst (projr (processImportedData exStamp exEngine
       (exData [exSlot ''s1'' ''Sala 1'' (Some ''Ana Sousa'') (Some ''p2''),
                exSlot ''s2'' ''Sala 2'' (Some ''Bob'') (Some ''p2'')])
       [exProfessional ''p1'' ''Ana Souza'' False, exProfessional ''p2'' ''Bob'' False] [])))
       = []
   \<and> map hasScheduleConflict (schedule (snd (projr (processImportedData exStamp exEngine
       (exData [exSlot ''s1'' ''Sala 1'' (Some ''Ana Sousa'') (Some ''p2''),
                exSlot ''s2'' ''Sala 2'' (Some ''Bob'') (Some ''p2'')])
       [exProfessional ''p1'' ''Ana Souza'' False, exProfessional ''p2'' ''Bob'' False] []))))
       = [False, False]
   \<and> map professionalId (schedule (snd (projr (processImportedData exStamp exEngine
       (exData [exSlot ''s1'' ''Sala 1'' (Some ''Ana Sousa'') (Some ''p2''),
                exSlot ''s2'' ''Sala 2'' (Some ''Bob'') (Some ''p2'')])
       [exProfessional ''p1'' ''Ana Souza'' False, exProfessional ''p2'' ''Bob'' False] []))))
       = [Some ''p1'', Some ''p2'']"
  by code_simp

text \<open>
  Claim C4, as amended. The slot is read in \<open>processedData\<close>: the pass runs after name
  validation, which overwrites the \<open>professionalId\<close> of a slot whose professional name is
  matched to a registry entry by \<open>_findClosestMatch\<close> (source line 155). In a run that returns,
  take a slot of \<open>processedData\<close> with a professional id and with a non-empty
  \<open>linkedAppointmentId\<close> (an empty one is no link: source line 270 tests
  \<open>!slot.linkedAppointmentId\<close>), such that exactly one existing appointment matches the slot's
  professional id, appointment date and time, and that appointment's id is the linked id. Then,
  no other slot of the schedule having this slot's id, no
  \<open>'Conflito com Agendamento Existente'\<close> conflict of the result carries that slot's id; and
  the callback of the pass returns the slot and the engine as it received them, whatever the
  two flags of the slot and the state of the engine at that moment: the pass does not set
  \<open>hasScheduleConflict\<close> on it.
\<close>

theorem linked_appointment_no_collision:
  assumes "processImportedData stamp this data profs apts = Inr (ai, out)"
    and "i < length (schedule out)"
    and "professionalId (schedule out ! i) = Some p"
      "linkedAppointmentId (schedule out ! i) = Some l" "l \<noteq> []"
    and "filter (\<lambda>apt. professionalId_apt apt = p \<and> date apt = appointmentDate (schedule out ! i)
                          \<and> time_apt apt = time_slot (schedule out ! i)) apts = [a]"
    and "id_apt a = l"
    and "\<forall>j<length (schedule out). j \<noteq> i \<longrightarrow> id_slot (schedule out ! j) \<noteq> id_slot (schedule out ! i)"
  shows "(\<forall>pn pat room dt refs.
            ConflitoComAgendamentoExistente pn pat room dt refs (id_slot (schedule out ! i))
              \<notin> set (conflicts ai))
       \<and> (\<forall>slot this'. staticPart slot = staticPart (schedule out ! i)
             \<longrightarrow> checkExistingAppointment apts slot this' = (slot, this'))"
proof (intro conjI allI impI)
  fix pn pat room dt refs
  show "ConflitoComAgendamentoExistente pn pat room dt refs (id_slot (schedule out ! i))
          \<notin> set (conflicts ai)"
    using assms by (rule linked_run)
next
  fix slot this'
  assume "staticPart slot = staticPart (schedule out ! i)"
  then have "conflictingAppointments apts slot = conflictingAppointments apts (schedule out ! i)"
    by (rule conflictingAppointments_static)
  also have "\<dots> = []"
    using assms(3,4,5,6,7) by (rule linked_conflictingAppointments)
  finally show "checkExistingAppointment apts slot this' = (slot, this')"
    by (rule checkExistingAppointment_noop)
qed

theorem linked_appointment_no_collision_witness:
  "\<exists>ai out.
     processImportedData exStamp exEngine
       (exData [(exSlot ''s1'' ''Sala 1'' (Some ''Ana Sousa'') (Some ''p2''))
                  \<lparr>linkedAppointmentId := Some ''a2''\<rparr>])
       [exProfessional ''p1'' ''Ana Souza'' False, exProfessional ''p2'' ''Bob'' False]
       [exAppointment ''a1'' ''Bia'' ''p2'', exAppointment ''a2'' ''Caio'' ''p1'']
       = Inr (ai, out)
     \<and> map professionalId (schedule out) = [Some ''p1'']
     \<and> (\<forall>pn pat room dt refs.
           ConflitoComAgendamentoExistente pn pat room dt refs ''s1'' \<notin> set (conflicts ai))
     \<and> \<not> hasScheduleConflict (schedule out ! 0)"
proof -
  define apts where "apts = [exAppointment ''a1'' ''Bia'' ''p2'', exAppointment ''a2'' ''Caio'' ''p1'']"
  define run where "run = processImportedData exStamp exEngine
       (exData [(exSlot ''s1'' ''Sala 1'' (Some ''Ana Sousa'') (Some ''p2''))
                  \<lparr>linkedAppointmentId := Some ''a2''\<rparr>])
       [exProfessional ''p1'' ''Ana Souza'' False, exProfessional ''p2'' ''Bob'' False] apts"
  define ai where "ai = fst (projr run)"
  define out where "out = snd (projr run)"
  have "\<not> isl run" unfolding run_def apts_def by code_simp
  then have run: "run = Inr (ai, out)" by (simp add: ai_def out_def)
  have l: "0 < length (schedule out)"
    unfolding out_def run_def apts_def by code_simp
  have h: "professionalId (schedule out ! 0) = Some ''p1''"
    "linkedAppointmentId (schedule out ! 0) = Some ''a2''" "''a2'' \<noteq> []"
    unfolding out_def run_def apts_def by code_simp+
  have only: "filter (\<lambda>apt. professionalId_apt apt = ''p1'' \<and> date apt = appointmentDate (schedule out ! 0)
                          \<and> time_apt apt = time_slot (schedule out ! 0))
                apts = [exAppointment ''a2'' ''Caio'' ''p1'']"
    unfolding out_def run_def apts_def by code_simp
  have a: "id_apt (exAppointment ''a2'' ''Caio'' ''p1'') = ''a2''" by code_simp
  have u: "\<forall>j<length (schedule out). j \<noteq> 0 \<longrightarrow> id_slot (schedule out ! j) \<noteq> id_slot (schedule out ! 0)"
    unfolding out_def run_def apts_def by code_simp
  have sid: "id_slot (schedule out ! 0) = ''s1''"
    unfolding out_def run_def apts_def by code_simp
  have flag: "\<not> hasScheduleConflict (schedule out ! 0)"
    unfolding out_def run_def apts_def by code_simp
  have pids: "map professionalId (schedule out) = [Some ''p1'']"
    unfolding out_def run_def apts_def by code_simp
  from linked_appointment_no_collision [OF run [unfolded run_def] l h only a u]
  have none: "\<forall>pn pat room dt refs.
           ConflitoComAgendamentoExistente pn pat room dt refs ''s1'' \<notin> set (conflicts ai)"
    unfolding sid by blast
  show ?thesis
    apply (rule exI [of _ ai])
    apply (rule exI [of _ out])
    apply (intro conjI)
       apply (rule run [unfolded run_def apts_def])
      apply (rule pids)
     apply (rule none)
    apply (rule flag)
    done
qed

text \<open>
  The claim as written fails, on two inputs. In the first, the slot has the professional id
  \<open>p2\<close> and is linked to \<open>a1\<close>, the only appointment that matches its professional id,
  appointment date and time (\<open>conflictingAppointments\<close> is applied to the slot without its link,
  so that it lists every matching appointment); name validation gives the slot the id \<open>p1\<close>
  (its name \<open>Ana Sousa\<close> matches the registry name \<open>Ana Souza\<close>), and the pass reports the
  collision with the appointment \<open>a2\<close> of \<open>p1\<close> and sets \<open>hasScheduleConflict\<close>. In the second,
  the linked id and the id of the only matching appointment are both the empty string: the
  test \<open>!slot.linkedAppointmentId\<close> holds, the appointment is kept by the filter, and the pass
  reports the collision and sets \<open>hasScheduleConflict\<close>.
\<close>

theorem linked_appointment_collision_counterexample:
  "\<not> isl (processImportedData exStamp exEngine
       (exData [(exSlot ''s1'' ''Sala 1'' (Some ''Ana Sousa'') (Some ''p2''))
                  \<lparr>linkedAppointmentId := Some ''a1''\<rparr>])
       [exProfessional ''p1'' ''Ana Souza'' False, exProfessional ''p2'' ''Bob'' False]
       [exAppointment ''a1'' ''Bia'' ''p2'', exAppointment ''a2'' ''Caio'' ''p1''])
   \<and> conflictingAppointments
         [exAppointment ''a1'' ''Bia'' ''p2'', exAppointment ''a2'' ''Caio'' ''p1'']
         (exSlot ''s1'' ''Sala 1'' (Some ''Ana Sousa'') (Some ''p2''))
       = [exAppointment ''a1'' ''Bia'' ''p2'']
   \<and> id_apt (exAppointment ''a1'' ''Bia'' ''p2'') = ''a1''
   \<and> conflicts (fst (projr (processImportedData exStamp exEngine
       (exData [(exSlot ''s1'' ''Sala 1'' (Some ''Ana Sousa'') (Some ''p2''))
                  \<lparr>linkedAppointmentId := Some ''a1''\<rparr>])
       [exProfessional ''p1'' ''Ana Souza'' False, exProfessional ''p2'' ''Bob'' False]
       [exAppointment ''a1'' ''Bia'' ''p2'', exAppointment ''a2'' ''Caio'' ''p1''])))
       = [ConflitoComAgendamentoExistente (Some ''Ana Souza'') None ''Sala 1'' ''Seg 09:00''
            [\<lparr>id_ref = ''a2'', client_ref = ''Caio'', type_ref = ''Consulta''\<rparr>] ''s1'']
   \<and> map hasScheduleConflict (schedule (snd (projr (processImportedData exStamp exEngine
       (exData [(exSlot ''s1'' ''Sala 1'' (Some ''Ana Sousa'') (Some ''p2''))
                  \<lparr>linkedAppointmentId := Some ''a1''\<rparr>])
       [exProfessional ''p1'' ''Ana Souza'' False, exProfessional ''p2'' ''Bob'' False]
       [exAppointment ''a1'' ''Bia'' ''p2'', exAppointment ''a2'' ''Caio'' ''p1'']))))
       = [True]
   \<and> \<not> isl (processImportedData exStamp exEngine
       (exData [(exSlot ''s1'' ''Sala 1'' (Some ''Ana'') (Some ''p1''))
                  \<lparr>linkedAppointmentId := Some ''''\<rparr>])
       [exProfessional ''p1'' ''Ana'' False] [exAppointment '''' ''Bia'' ''p1''])
   \<and> conflictingAppointments [exAppointment '''' ''Bia'' ''p1'']
         (exSlot ''s1'' ''Sala 1'' (Some ''Ana'') (Some ''p1''))
       = [exAppointment '''' ''Bia'' ''p1'']
   \<and> id_apt (exAppointment '''' ''Bia'' ''p1'') = ''''
   \<and> conflicts (fst (projr (processImportedData exStamp exEngine
       (exData [(exSlot ''s1'' ''Sala 1'' (Some ''Ana'') (Some ''p1''))
                  \<lparr>linkedAppointmentId := Some ''''\<rparr>])
       [exProfessional ''p1'' ''Ana'' False] [exAppointment '''' ''Bia'' ''p1''])))
       = [ConflitoComAgendamentoExistente (Some ''Ana'') None ''Sala 1'' ''Seg 09:00''
            [\<lparr>id_ref = '''', client_ref = ''Bia'', type_ref = ''Consulta''\<rparr>] ''s1'']
   \<and> map hasScheduleConflict (schedule (snd (projr (processImportedData exStamp exEngine
       (exData [(exSlot ''s1'' ''Sala 1'' (Some ''Ana'') (Some ''p1''))
                  \<lparr>linkedAppointmentId := Some ''''\<rparr>])
       [exProfessional ''p1'' ''Ana'' False] [exAppointment '''' ''Bia'' ''p1'']))))
       = [True]"
  by code_simp

text \<open>
  Claim C8, as amended. The slots are read in \<open>processedData\<close>: the inactive-professional pass
  runs after name validation, which overwrites the \<open>professionalId\<close> of a slot whose
  professional name is matched to a registry entry by \<open>_findClosestMatch\<close> (source line 155).
  After a run that returns, the \<open>'Profissional Inativo'\<close> conflicts are, in schedule order,
  exactly one for each slot of \<open>processedData\<close> that is occupied and whose professional id is
  found in the registry on a professional flagged inactive; each such slot has
  \<open>hasValidationError\<close> set; and the inactive-professional pass leaves \<open>hasScheduleConflict\<close>
  of every slot as it was, whatever state it starts from.
\<close>

theorem inactive_professional_conflicts:
  assumes "processImportedData stamp this data profs apts = Inr (ai, out)"
  shows "filter isProfissionalInativo (conflicts ai) =
           concat (map (\<lambda>slot. case inactiveProfessional profs slot of
                                 None \<Rightarrow> []
                               | Some p \<Rightarrow> [ProfissionalInativo (name_prof p) (patientName slot)
                                              (roomName slot) (dayTime slot) (id_slot slot)])
                     (schedule out))
       \<and> (\<forall>slot\<in>set (schedule out).
             inactiveProfessional profs slot \<noteq> None \<longrightarrow> hasValidationError slot)
       \<and> map hasScheduleConflict (schedule (snd (checkInactiveProfessionals this' data' profs)))
             = map hasScheduleConflict (schedule data')"
  using inactive_run [OF assms] inactive_pass_flags by blast

theorem inactive_professional_conflicts_witness:
  "\<exists>ai out.
     processImportedData exStamp exEngine
       (exData [exSlot ''s1'' ''Sala 1'' (Some ''Ana Sousa'') (Some ''p2'')])
       [exProfessional ''p1'' ''Ana Souza'' True, exProfessional ''p2'' ''Bob'' False] []
       = Inr (ai, out)
     \<and> map professionalId (schedule out) = [Some ''p1'']
     \<and> inactiveProfessional
           [exProfessional ''p1'' ''Ana Souza'' True, exProfessional ''p2'' ''Bob'' False]
           (schedule out ! 0) \<noteq> None
     \<and> hasValidationError (schedule out ! 0)
     \<and> \<not> hasScheduleConflict (schedule out ! 0)
     \<and> filter isProfissionalInativo (conflicts ai)
           = [ProfissionalInativo ''Ana Souza'' None ''Sala 1'' ''Seg 09:00'' ''s1'']"
proof -
  define profs where
    "profs = [exProfessional ''p1'' ''Ana Souza'' True, exProfessional ''p2'' ''Bob'' False]"
  define run where "run = processImportedData exStamp exEngine
       (exData [exSlot ''s1'' ''Sala 1'' (Some ''Ana Sousa'') (Some ''p2'')]) profs []"
  define ai where "ai = fst (projr run)"
  define out where "out = snd (projr run)"
  have "\<not> isl run" unfolding run_def profs_def by code_simp
  then have run: "run = Inr (ai, out)" by (simp add: ai_def out_def)
  have sched: "schedule out
      = [(exSlot ''s1'' ''Sala 1'' (Some ''Ana Souza'') (Some ''p1''))\<lparr>hasValidationError := True\<rparr>]"
    unfolding out_def run_def profs_def by code_simp
  have pids: "map professionalId (schedule out) = [Some ''p1'']"
    unfolding sched by code_simp
  have hyp: "inactiveProfessional profs (schedule out ! 0) \<noteq> None"
    unfolding sched profs_def by code_simp
  have nsc: "\<not> hasScheduleConflict (schedule out ! 0)"
    unfolding sched by code_simp
  have mem: "schedule out ! 0 \<in> set (schedule out)"
    unfolding sched by simp
  have rhs: "concat (map (\<lambda>slot. case inactiveProfessional profs slot of
                                 None \<Rightarrow> []
                               | Some p \<Rightarrow> [ProfissionalInativo (name_prof p) (patientName slot)
                                              (roomName slot) (dayTime slot) (id_slot slot)])
                     (schedule out))
      = [ProfissionalInativo ''Ana Souza'' None ''Sala 1'' ''Seg 09:00'' ''s1'']"
    unfolding sched profs_def by code_simp
  note t = inactive_professional_conflicts [OF run [unfolded run_def]]
  from t have c: "filter isProfissionalInativo (conflicts ai)
           = [ProfissionalInativo ''Ana Souza'' None ''Sala 1'' ''Seg 09:00'' ''s1'']"
    unfolding rhs by (rule conjunct1)
  from t have "\<forall>slot\<in>set (schedule out).
             inactiveProfessional profs slot \<noteq> None \<longrightarrow> hasValidationError slot"
    by (rule conjunct2 [THEN conjunct1])
  with mem hyp have v: "hasValidationError (schedule out ! 0)" by blast
  show ?thesis
    apply (rule exI [of _ ai])
    apply (rule exI [of _ out])
    apply (intro conjI)
         apply (rule run [unfolded run_def profs_def])
        apply (rule pids)
       apply (rule hyp [unfolded profs_def])
      apply (rule v)
     apply (rule nsc)
    apply (rule c)
    done
qed

text \<open>
  The claim as written fails: the slot of the input is occupied and its professional id \<open>p2\<close>
  resolves to a registry professional flagged inactive. Its name \<open>Ana Sousa\<close> is not a registry
  name and \<open>_findClosestMatch\<close> returns the registry name \<open>Ana Souza\<close> for it (similarity 8/9),
  so name validation gives the slot the id \<open>p1\<close> of an active professional before the
  inactive-professional pass runs. The run reports no conflict and does not set
  \<open>hasValidationError\<close> on the slot.
\<close>

theorem inactive_professional_input_id_counterexample:
  "\<not> isl (processImportedData exStamp exEngine
       (exData [exSlot ''s1'' ''Sala 1'' (Some ''Ana Sousa'') (Some ''p2'')])
       [exProfessional ''p1'' ''Ana Souza'' False, exProfessional ''p2'' ''Bob'' True] [])
   \<and> map isOccupied (schedule
       (exData [exSlot ''s1'' ''Sala 1'' (Some ''Ana Sousa'') (Some ''p2'')])) = [True]
   \<and> map (inactiveProfessional
            [exProfessional ''p1'' ''Ana Souza'' False, exProfessional ''p2'' ''Bob'' True])
       (schedule (exData [exSlot ''s1'' ''Sala 1'' (Some ''Ana Sousa'') (Some ''p2'')]))
       = [Some (exProfessional ''p2'' ''Bob'' True)]
   \<and> conflicts (fst (projr (processImportedData exStamp exEngine
       (exData [exSlot ''s1'' ''Sala 1'' (Some ''Ana Sousa'') (Some ''p2'')])
       [exProfessional ''p1'' ''Ana Souza'' False, exProfessional ''p2'' ''Bob'' True] [])))
       = []
   \<and> map hasValidationError (schedule (snd (projr (processImportedData exStamp exEngine
       (exData [exSlot ''s1'' ''Sala 1'' (Some ''Ana Sousa'') (Some ''p2'')])
       [exProfessional ''p1'' ''Ana Souza'' False, exProfessional ''p2'' ''Bob'' True] []))))
       = [False]
   \<and> map professionalId (schedule (snd (projr (processImportedData exStamp exEngine
       (exData [exSlot ''s1'' ''Sala 1'' (Some ''Ana Sousa'') (Some ''p2'')])
       [exProfessional ''p1'' ''Ana Souza'' False, exProfessional ''p2'' ''Bob'' True] []))))
       = [Some ''p1'']"
  by code_simp

text \<open>
  Claim C9. In a run that returns, a slot of the input with \<open>isOccupied\<close> false is, field for
  field, the slot at the same position of \<open>processedData\<close>; and, its id being that of no
  occupied slot of the schedule, no suggested change, validation error, auto-correction or
  conflict of the result carries its id.
\<close>

theorem unoccupied_slot_untouched:
  assumes "processImportedData stamp this data profs apts = Inr (ai, out)"
    and "i < length (schedule data)" "\<not> isOccupied (schedule data ! i)"
    and "\<forall>j<length (schedule data). isOccupied (schedule data ! j)
            \<longrightarrow> id_slot (schedule data ! j) \<noteq> id_slot (schedule data ! i)"
  shows "schedule out ! i = schedule data ! i \<and> id_slot (schedule data ! i) \<notin> slotIds ai"
  using unoccupied_run [OF assms] by blast

theorem unoccupied_slot_untouched_witness:
  "\<exists>ai out.
     processImportedData exStamp exEngine
       (exData [(exSlot ''u1'' ''Sala 1'' (Some ''Zed'') None)\<lparr>isOccupied := False\<rparr>,
                exSlot ''s2'' ''Sala 1'' (Some ''Zed'') None])
       [] [] = Inr (ai, out)
     \<and> schedule out ! 0 = (exSlot ''u1'' ''Sala 1'' (Some ''Zed'') None)\<lparr>isOccupied := False\<rparr>
     \<and> ''u1'' \<notin> slotIds ai \<and> ''s2'' \<in> slotIds ai"
proof -
  define data where "data = exData [(exSlot ''u1'' ''Sala 1'' (Some ''Zed'') None)\<lparr>isOccupied := False\<rparr>,
                exSlot ''s2'' ''Sala 1'' (Some ''Zed'') None]"
  define run where "run = processImportedData exStamp exEngine data [] []"
  define ai where "ai = fst (projr run)"
  define out where "out = snd (projr run)"
  have "\<not> isl run" unfolding run_def data_def by code_simp
  then have run: "run = Inr (ai, out)" by (simp add: ai_def out_def)
  have h: "0 < length (schedule data)" "\<not> isOccupied (schedule data ! 0)"
    "\<forall>j<length (schedule data). isOccupied (schedule data ! j)
            \<longrightarrow> id_slot (schedule data ! j) \<noteq> id_slot (schedule data ! 0)"
    unfolding data_def by code_simp+
  have d0: "schedule data ! 0 = (exSlot ''u1'' ''Sala 1'' (Some ''Zed'') None)\<lparr>isOccupied := False\<rparr>"
    unfolding data_def by code_simp
  have sid: "id_slot (schedule data ! 0) = ''u1''"
    unfolding data_def by code_simp
  have other: "''s2'' \<in> slotId_cr ` set (suggestedChanges ai)"
    unfolding ai_def run_def data_def by code_simp
  then have s2: "''s2'' \<in> slotIds ai" unfolding slotIds_def by blast
  note t = unoccupied_slot_untouched [OF run [unfolded run_def] h]
  from t have a: "schedule out ! 0 = (exSlot ''u1'' ''Sala 1'' (Some ''Zed'') None)\<lparr>isOccupied := False\<rparr>"
    unfolding d0 by (rule conjunct1)
  from t have b: "''u1'' \<notin> slotIds ai"
    unfolding sid by (rule conjunct2)
  from run [unfolded run_def data_def] a b s2 show ?thesis by blast
qed

text \<open>
  Claim C10. Let no appointment date, time or day-of-week value of the imported schedule hold
  an underscore (room names and professional ids may: the ids of synthetic professionals
  always do). Then the string keys are injective on the slots that are grouped: in a run that
  returns, the slot-id list of every \<open>'Profissional em Multiplas Salas'\<close> conflict is that of a
  group of two or more different slots of \<open>processedData\<close> that agree pairwise on professional
  id, appointment date and time, and the slot-id list of every
  \<open>'Sala com Multiplos Agendamentos'\<close> conflict is that of a group of two or more different
  slots that agree pairwise on room name, day of week and time; and in any schedule with such
  values, the two grouping loops only put into one group slots that agree on the three fields
  of the key.
\<close>

theorem grouping_keys_injective:
  assumes "processImportedData stamp this data profs apts = Inr (ai, out)"
    and "\<forall>slot\<in>set (schedule data). underscoreFree slot"
  shows "(ProfissionalEmMultiplasSalas pn rooms dt ids \<in> set (conflicts ai) \<longrightarrow>
           (\<exists>g. 1 < length g \<and> distinct g \<and> ids = map (\<lambda>i. id_slot (schedule out ! i)) g
             \<and> (\<forall>i\<in>set g. i < length (schedule out))
             \<and> (\<forall>i\<in>set g. \<forall>j\<in>set g.
                   professionalId (schedule out ! i) = professionalId (schedule out ! j)
                   \<and> appointmentDate (schedule out ! i) = appointmentDate (schedule out ! j)
                   \<and> time_slot (schedule out ! i) = time_slot (schedule out ! j))))
       \<and> (SalaComMultiplosAgendamentos room dt' pats prs ids' \<in> set (conflicts ai) \<longrightarrow>
           (\<exists>g. 1 < length g \<and> distinct g \<and> ids' = map (\<lambda>i. id_slot (schedule out ! i)) g
             \<and> (\<forall>i\<in>set g. i < length (schedule out))
             \<and> (\<forall>i\<in>set g. \<forall>j\<in>set g.
                   roomName (schedule out ! i) = roomName (schedule out ! j)
                   \<and> dayOfWeek (schedule out ! i) = dayOfWeek (schedule out ! j)
                   \<and> time_slot (schedule out ! i) = time_slot (schedule out ! j))))
       \<and> (\<forall>sched groups k g i j.
             (\<forall>slot\<in>set sched. underscoreFree slot) \<and> slotsByProfDayTime sched = Inr groups
             \<and> (k, g) \<in> set groups \<and> i \<in> set g \<and> j \<in> set g
             \<longrightarrow> professionalId (sched ! i) = professionalId (sched ! j)
                 \<and> appointmentDate (sched ! i) = appointmentDate (sched ! j)
                 \<and> time_slot (sched ! i) = time_slot (sched ! j))
       \<and> (\<forall>sched groups k g i j.
             (\<forall>slot\<in>set sched. underscoreFree slot) \<and> slotsByRoomDayTime sched = Inr groups
             \<and> (k, g) \<in> set groups \<and> i \<in> set g \<and> j \<in> set g
             \<longrightarrow> roomName (sched ! i) = roomName (sched ! j)
                 \<and> dayOfWeek (sched ! i) = dayOfWeek (sched ! j)
                 \<and> time_slot (sched ! i) = time_slot (sched ! j))"
proof (intro conjI impI allI)
  assume "ProfissionalEmMultiplasSalas pn rooms dt ids \<in> set (conflicts ai)"
  then show "\<exists>g. 1 < length g \<and> distinct g \<and> ids = map (\<lambda>i. id_slot (schedule out ! i)) g
             \<and> (\<forall>i\<in>set g. i < length (schedule out))
             \<and> (\<forall>i\<in>set g. \<forall>j\<in>set g.
                   professionalId (schedule out ! i) = professionalId (schedule out ! j)
                   \<and> appointmentDate (schedule out ! i) = appointmentDate (schedule out ! j)
                   \<and> time_slot (schedule out ! i) = time_slot (schedule out ! j))"
    by (rule conflict_groups_run(1) [OF assms])
next
  assume "SalaComMultiplosAgendamentos room dt' pats prs ids' \<in> set (conflicts ai)"
  then show "\<exists>g. 1 < length g \<and> distinct g \<and> ids' = map (\<lambda>i. id_slot (schedule out ! i)) g
             \<and> (\<forall>i\<in>set g. i < length (schedule out))
             \<and> (\<forall>i\<in>set g. \<forall>j\<in>set g.
                   roomName (schedule out ! i) = roomName (schedule out ! j)
                   \<and> dayOfWeek (schedule out ! i) = dayOfWeek (schedule out ! j)
                   \<and> time_slot (schedule out ! i) = time_slot (schedule out ! j))"
    by (rule conflict_groups_run(2) [OF assms])
next
  fix sched groups k g i j
  assume h: "(\<forall>slot\<in>set sched. underscoreFree slot) \<and> slotsByProfDayTime sched = Inr groups
             \<and> (k, g) \<in> set groups \<and> i \<in> set g \<and> j \<in> set g"
  from prof_group_agrees [of sched groups k g i j] h
  show "professionalId (sched ! i) = professionalId (sched ! j)"
    "appointmentDate (sched ! i) = appointmentDate (sched ! j)"
    "time_slot (sched ! i) = time_slot (sched ! j)" by blast+
next
  fix sched groups k g i j
  assume h: "(\<forall>slot\<in>set sched. underscoreFree slot) \<and> slotsByRoomDayTime sched = Inr groups
             \<and> (k, g) \<in> set groups \<and> i \<in> set g \<and> j \<in> set g"
  from room_group_agrees [of sched groups k g i j] h
  show "roomName (sched ! i) = roomName (sched ! j)"
    "dayOfWeek (sched ! i) = dayOfWeek (sched ! j)"
    "time_slot (sched ! i) = time_slot (sched ! j)" by blast+
qed

theorem grouping_keys_injective_witness:
  "\<exists>ai out.
     processImportedData exStamp exEngine
       (exData [exSlot ''s1'' ''Sala 1'' (Some ''Ana'') (Some ''p1''),
                exSlot ''s2'' ''Sala 1'' (Some ''Ana'') (Some ''p1'')])
       [exProfessional ''p1'' ''Ana'' False] [] = Inr (ai, out)
     \<and> ProfissionalEmMultiplasSalas (Some ''Ana'') ''Sala 1, Sala 1'' ''Seg 09:00'' [''s1'', ''s2'']
           \<in> set (conflicts ai)
     \<and> SalaComMultiplosAgendamentos ''Sala 1'' ''Seg 09:00'' [] ''Ana, Ana'' [''s1'', ''s2'']
           \<in> set (conflicts ai)
     \<and> (\<exists>g. 1 < length g \<and> distinct g \<and> [''s1'', ''s2''] = map (\<lambda>i. id_slot (schedule out ! i)) g
           \<and> (\<forall>i\<in>set g. i < length (schedule out))
           \<and> (\<forall>i\<in>set g. \<forall>j\<in>set g.
                 professionalId (schedule out ! i) = professionalId (schedule out ! j)
                 \<and> appointmentDate (schedule out ! i) = appointmentDate (schedule out ! j)
                 \<and> time_slot (schedule out ! i) = time_slot (schedule out ! j)))
     \<and> (\<exists>g. 1 < length g \<and> distinct g \<and> [''s1'', ''s2''] = map (\<lambda>i. id_slot (schedule out ! i)) g
           \<and> (\<forall>i\<in>set g. i < length (schedule out))
           \<and> (\<forall>i\<in>set g. \<forall>j\<in>set g.
                 roomName (schedule out ! i) = roomName (schedule out ! j)
                 \<and> dayOfWeek (schedule out ! i) = dayOfWeek (schedule out ! j)
                 \<and> time_slot (schedule out ! i) = time_slot (schedule out ! j)))"
proof -
  define data where "data = exData [exSlot ''s1'' ''Sala 1'' (Some ''Ana'') (Some ''p1''),
                exSlot ''s2'' ''Sala 1'' (Some ''Ana'') (Some ''p1'')]"
  define run where "run = processImportedData exStamp exEngine data
       [exProfessional ''p1'' ''Ana'' False] []"
  define ai where "ai = fst (projr run)"
  define out where "out = snd (projr run)"
  have "\<not> isl run" unfolding run_def data_def by code_simp
  then have run: "run = Inr (ai, out)" by (simp add: ai_def out_def)
  have u: "\<forall>slot\<in>set (schedule data). underscoreFree slot"
    unfolding data_def by code_simp
  have c1: "ProfissionalEmMultiplasSalas (Some ''Ana'') ''Sala 1, Sala 1'' ''Seg 09:00'' [''s1'', ''s2'']
           \<in> set (conflicts ai)"
    unfolding ai_def run_def data_def by code_simp
  have c2: "SalaComMultiplosAgendamentos ''Sala 1'' ''Seg 09:00'' [] ''Ana, Ana'' [''s1'', ''s2'']
           \<in> set (conflicts ai)"
    unfolding ai_def run_def data_def by code_simp
  note t = grouping_keys_injective [OF run [unfolded run_def] u,
      of "Some ''Ana''" "''Sala 1, Sala 1''" "''Seg 09:00''" "[''s1'', ''s2'']"
         "''Sala 1''" "''Seg 09:00''" "[]" "''Ana, Ana''" "[''s1'', ''s2'']"]
  note g1 = t [THEN conjunct1, THEN mp, OF c1]
  note g2 = t [THEN conjunct2, THEN conjunct1, THEN mp, OF c2]
  show ?thesis
    apply (rule exI [of _ ai])
    apply (rule exI [of _ out])
    apply (intro conjI)
        apply (rule run [unfolded run_def data_def])
       apply (rule c1)
      apply (rule c2)
     apply (rule g1)
    apply (rule g2)
    done
qed

end
